theory Spec2Isabelle
  imports Complex_Main
begin

section \<open>Values and exceptions\<close>

text \<open>
  The script \<^verbatim>\<open>RCMpkl_to_spin.py\<close> works on Python and numpy floats. The model is in exact
  arithmetic: floats are \<^typ>\<open>real\<close>, complex floats are \<^typ>\<open>complex\<close>. Every \<^verbatim>\<open>raise\<close> of the
  source, and every exception of the interpreter that the source can run into, is a value
  of \<open>error\<close>; a function that can raise returns \<open>error + 'a\<close>.
\<close>

datatype error =
    NameError string
  | ValueError string
  | ZeroDivisionError
  | IndexError
  | TypeError

text \<open>
  The head of the module imports \<^verbatim>\<open>numpy\<close>, \<^verbatim>\<open>datetime\<close>, \<^verbatim>\<open>pandas\<close>, \<^verbatim>\<open>time\<close>, \<^verbatim>\<open>calendar\<close>,
  \<^verbatim>\<open>hl_analytic\<close>, \<^verbatim>\<open>cmath\<close> and \<^verbatim>\<open>sys\<close>. The name \<^verbatim>\<open>math\<close> is bound nowhere, so evaluating
  \<^verbatim>\<open>math.sqrt(x)\<close>, \<^verbatim>\<open>math.acos(x)\<close>, \<^verbatim>\<open>math.cos(x)\<close> or \<^verbatim>\<open>math.sin(x)\<close> raises
  \<^verbatim>\<open>NameError: name 'math' is not defined\<close> before the argument is used.
\<close>

definition math_sqrt :: "real \<Rightarrow> error + real" where
  "math_sqrt x = Inl (NameError ''math'')"

definition math_acos :: "real \<Rightarrow> error + real" where
  "math_acos x = Inl (NameError ''math'')"

definition math_cos :: "real \<Rightarrow> error + real" where
  "math_cos x = Inl (NameError ''math'')"

definition math_sin :: "real \<Rightarrow> error + real" where
  "math_sin x = Inl (NameError ''math'')"

text \<open>
  \<^verbatim>\<open>x**y\<close> for a complex \<open>x\<close> and a positive float \<open>y\<close> is the principal power: zero at zero,
  and \<open>|x|\<^sup>y\<close> at the angle \<open>y * atan2(im, re)\<close> elsewhere. On a non-negative float it is the
  real power, which is the same value.
\<close>

definition cpow :: "complex \<Rightarrow> real \<Rightarrow> complex" where
  "cpow x y = (if x = 0 then 0 else rcis (cmod x powr y) (Arg x * y))"

text \<open>The local helper \<^verbatim>\<open>cubic_root(x)\<close> of the single-equation cubic solvers.\<close>

definition cubic_root :: "complex \<Rightarrow> complex" where
  "cubic_root x = (let third = 1 / 3 in
     if Re x \<ge> 0 then cpow x third else - cpow (- x) third)"

text \<open>An exception raised by a sub-expression ends the evaluation of the whole body.\<close>

definition bind_err :: "error + 'a \<Rightarrow> ('a \<Rightarrow> error + 'b) \<Rightarrow> error + 'b" where
  "bind_err m f = (case m of Inl err \<Rightarrow> Inl err | Inr x \<Rightarrow> f x)"

section \<open>Single-equation solvers of class FQS\<close>

text \<open>
  A division by a zero leading coefficient raises \<^verbatim>\<open>ZeroDivisionError\<close> on Python numbers;
  on numpy scalars it gives \<^verbatim>\<open>inf\<close> or \<^verbatim>\<open>nan\<close>, for which exact arithmetic has no value.
  In both cases the model stops with \<open>ZeroDivisionError\<close>.
\<close>

definition single_quadratic ::
  "complex \<Rightarrow> complex \<Rightarrow> complex \<Rightarrow> error + (complex \<times> complex)" where
  "single_quadratic a0 b0 c0 =
     (if a0 = 0 then Inl ZeroDivisionError else
      let a = b0 / a0; b = c0 / a0;
          a0' = - 0.5 * a;
          delta = a0' * a0' - b;
          sqrt_delta = csqrt delta;
          r1 = a0' - sqrt_delta;
          r2 = a0' + sqrt_delta
      in Inr (r1, r2))"

definition single_cubic ::
  "real \<Rightarrow> real \<Rightarrow> real \<Rightarrow> real \<Rightarrow> error + (complex \<times> complex \<times> complex)" where
  "single_cubic a0 b0 c0 d0 =
     (if a0 = 0 then Inl ZeroDivisionError else
      let a = b0 / a0; b = c0 / a0; c = d0 / a0;
          third = 1 / 3;
          a13 = a * third;
          a2 = a13 * a13
      in bind_err (math_sqrt 3) (\<lambda>sqr3.
      let f = third * b - a2;
          g = a13 * (2 * a2 - b) + c;
          h = 0.25 * g * g + f * f * f
      in if f = 0 \<and> g = 0 \<and> h = 0 then
           (let r1 = - cubic_root (of_real c) in Inr (r1, r1, r1))
         else if h \<le> 0 then
           bind_err (math_sqrt (- f)) (\<lambda>j.
           bind_err (math_acos (- 0.5 * g / (j * j * j))) (\<lambda>k.
           bind_err (math_cos (third * k)) (\<lambda>m.
           bind_err (math_sin (third * k)) (\<lambda>sn.
            let n = sqr3 * sn;
                r1 = 2 * j * m - a13;
                r2 = - j * (m + n) - a13;
                r3 = - j * (m - n) - a13
            in Inr (of_real r1, of_real r2, of_real r3)))))
         else
           (let sqrt_h = csqrt (of_real h);
                S = cubic_root (of_real (- 0.5 * g) + sqrt_h);
                U = cubic_root (of_real (- 0.5 * g) - sqrt_h);
                S_plus_U = S + U;
                S_minus_U = S - U;
                r1 = S_plus_U - of_real a13;
                r2 = - 0.5 * S_plus_U - of_real a13 + S_minus_U * of_real sqr3 * (0.5 * \<i>);
                r3 = - 0.5 * S_plus_U - of_real a13 - S_minus_U * of_real sqr3 * (0.5 * \<i>)
            in Inr (r1, r2, r3))))"

definition single_cubic_one :: "real \<Rightarrow> real \<Rightarrow> real \<Rightarrow> real \<Rightarrow> error + complex" where
  "single_cubic_one a0 b0 c0 d0 =
     (if a0 = 0 then Inl ZeroDivisionError else
      let a = b0 / a0; b = c0 / a0; c = d0 / a0;
          third = 1 / 3;
          a13 = a * third;
          a2 = a13 * a13;
          f = third * b - a2;
          g = a13 * (2 * a2 - b) + c;
          h = 0.25 * g * g + f * f * f
      in if f = 0 \<and> g = 0 \<and> h = 0 then
           Inr (- cubic_root (of_real c))
         else if h \<le> 0 then
           bind_err (math_sqrt (- f)) (\<lambda>j.
           bind_err (math_acos (- 0.5 * g / (j * j * j))) (\<lambda>k.
           bind_err (math_cos (third * k)) (\<lambda>m.
            Inr (of_real (2 * j * m - a13)))))
         else
           (let sqrt_h = csqrt (of_real h);
                S = cubic_root (of_real (- 0.5 * g) + sqrt_h);
                U = cubic_root (of_real (- 0.5 * g) - sqrt_h);
                S_plus_U = S + U
            in Inr (S_plus_U - of_real a13)))"

definition single_quartic ::
  "real \<Rightarrow> real \<Rightarrow> real \<Rightarrow> real \<Rightarrow> real \<Rightarrow>
     error + (complex \<times> complex \<times> complex \<times> complex)" where
  "single_quartic a0 b0 c0 d0 e0 =
     (if a0 = 0 then Inl ZeroDivisionError else
      let a = b0 / a0; b = c0 / a0; c = d0 / a0; d = e0 / a0;
          a0' = 0.25 * a;
          a02 = a0' * a0';
          p = 3 * a02 - 0.5 * b;
          q = a * a02 - b * a0' + 0.5 * c;
          r = 3 * a02 * a02 - b * a02 + c * a0' - d
      in bind_err (single_cubic_one 1 p r (p * r - 0.5 * q * q)) (\<lambda>z0.
      let s = csqrt (of_real (2 * p + 2 * Re z0));
          t = (if s = 0 then z0 * z0 + of_real r else - of_real q / s)
      in bind_err (single_quadratic 1 s (z0 + t)) (\<lambda>(r0, r1).
         bind_err (single_quadratic 1 (- s) (z0 - t)) (\<lambda>(r2, r3).
         Inr (r0 - of_real a0', r1 - of_real a0', r2 - of_real a0', r3 - of_real a0')))))"

section \<open>Batched solvers of class FQS\<close>

text \<open>
  The batched solvers work on numpy arrays, one entry per equation. The model takes the list
  of coefficient rows and computes each entry with the formula that the boolean masks
  select for it. The list comprehension of the callers stops at the first exception.
\<close>

fun map_err :: "('a \<Rightarrow> error + 'b) \<Rightarrow> 'a list \<Rightarrow> error + 'b list" where
  "map_err f [] = Inr []"
| "map_err f (x # xs) =
     bind_err (f x) (\<lambda>y. bind_err (map_err f xs) (\<lambda>ys. Inr (y # ys)))"

definition multi_quadratic ::
  "complex \<Rightarrow> (complex \<times> complex) list \<Rightarrow> error + (complex \<times> complex) list" where
  "multi_quadratic a0 rows =
     (if a0 = 0 then Inl ZeroDivisionError else
      Inr (map (\<lambda>(b0, c0).
        let a = b0 / a0; b = c0 / a0;
            a0' = - 0.5 * a;
            delta = a0' * a0' - b;
            sqrt_delta = csqrt (delta + 0 * \<i>);
            r1 = a0' - sqrt_delta;
            r2 = a0' + sqrt_delta
        in (r1, r2)) rows))"

text \<open>The local helper \<^verbatim>\<open>cubic_root(x)\<close> of \<^verbatim>\<open>multi_cubic\<close>, on one entry of a real array.\<close>

definition cubic_root_arr :: "real \<Rightarrow> real" where
  "cubic_root_arr x = (let third = 1 / 3 in
     if x \<ge> 0 then x powr third else - ((- x) powr third))"

definition roots_all_real_equal :: "real \<Rightarrow> real \<times> complex \<times> complex" where
  "roots_all_real_equal c = (let r1 = - cubic_root_arr c in (r1, of_real r1, of_real r1))"

definition roots_all_real_distinct ::
  "real \<Rightarrow> real \<Rightarrow> real \<Rightarrow> real \<Rightarrow> real \<Rightarrow> real \<times> complex \<times> complex" where
  "roots_all_real_distinct sqr3 a13 f g h =
     (let third = 1 / 3;
          j = sqrt (- f);
          k = arccos (- 0.5 * g / (j * j * j));
          m = cos (third * k);
          r1 = 2 * j * m - a13;
          n = sqr3 * sin (third * k);
          r2 = - j * (m + n) - a13;
          r3 = - j * (m - n) - a13
      in (r1, of_real r2, of_real r3))"

definition roots_one_real :: "real \<Rightarrow> real \<Rightarrow> real \<Rightarrow> real \<Rightarrow> real \<times> complex \<times> complex" where
  "roots_one_real sqr3 a13 g h =
     (let sqrt_h = sqrt h;
          S = cubic_root_arr (- 0.5 * g + sqrt_h);
          U = cubic_root_arr (- 0.5 * g - sqrt_h);
          S_plus_U = S + U;
          r1 = S_plus_U - a13;
          S_minus_U = S - U;
          r2 = of_real (- 0.5 * S_plus_U - a13) + of_real (S_minus_U * sqr3) * (0.5 * \<i>);
          r3 = of_real (- 0.5 * S_plus_U - a13) - of_real (S_minus_U * sqr3) * (0.5 * \<i>)
      in (r1, r2, r3))"

text \<open>
  One entry of \<^verbatim>\<open>multi_cubic\<close>: the masks \<open>m1\<close>, \<open>m2\<close>, \<open>m3\<close> and the formula of the mask that
  holds. The first component is the root that \<^verbatim>\<open>all_roots=False\<close> keeps.
\<close>

definition multi_cubic_entry ::
  "real \<Rightarrow> real \<times> real \<times> real \<times> real \<Rightarrow> error + (real \<times> complex \<times> complex)" where
  "multi_cubic_entry sqr3 row = (case row of (a0, b0, c0, d0) \<Rightarrow>
     if a0 = 0 then Inl ZeroDivisionError else
      let a = b0 / a0; b = c0 / a0; c = d0 / a0;
          third = 1 / 3;
          a13 = a * third;
          a2 = a13 * a13;
          f = third * b - a2;
          g = a13 * (2 * a2 - b) + c;
          h = 0.25 * g * g + f * f * f;
          m1 = (f = 0 \<and> g = 0 \<and> h = 0);
          m2 = (\<not> m1 \<and> h \<le> 0);
          m3 = (\<not> m1 \<and> \<not> m2)
      in Inr (if m1 then roots_all_real_equal c
              else if m2 then roots_all_real_distinct sqr3 a13 f g h
              else roots_one_real sqr3 a13 g h))"

datatype cubic_result =
    First_root "real list"
  | All_roots "(complex \<times> complex \<times> complex) list"

text \<open>
  \<^verbatim>\<open>multi_cubic\<close> binds \<^verbatim>\<open>sqr3 = math.sqrt(3)\<close> before it looks at \<^verbatim>\<open>all_roots\<close>. The
  array divisions before that line do not raise, so this is the first exception of the body.
\<close>

definition multi_cubic ::
  "(real \<times> real \<times> real \<times> real) list \<Rightarrow> bool \<Rightarrow> error + cubic_result" where
  "multi_cubic rows all_roots =
     bind_err (math_sqrt 3) (\<lambda>sqr3.
     bind_err (map_err (multi_cubic_entry sqr3) rows) (\<lambda>roots.
       Inr (if all_roots
            then All_roots (map (\<lambda>(r1, r2, r3). (of_real r1, r2, r3)) roots)
            else First_root (map fst roots))))"

definition multi_quartic ::
  "(real \<times> real \<times> real \<times> real \<times> real) list \<Rightarrow>
     error + (complex \<times> complex \<times> complex \<times> complex) list" where
  "multi_quartic rows =
     bind_err (map_err (\<lambda>(a0, b0, c0, d0, e0).
        if a0 = 0 then Inl ZeroDivisionError else
        let a = b0 / a0; b = c0 / a0; c = d0 / a0; d = e0 / a0;
            a0' = 0.25 * a;
            a02 = a0' * a0';
            p = 3 * a02 - 0.5 * b;
            q = a * a02 - b * a0' + 0.5 * c;
            r = 3 * a02 * a02 - b * a02 + c * a0' - d
        in Inr (a0', p, q, r)) rows) (\<lambda>pre.
     bind_err (multi_cubic (map (\<lambda>(a0', p, q, r). (1, p, r, p * r - 0.5 * q * q)) pre) False)
       (\<lambda>res. case res of
          All_roots _ \<Rightarrow> Inl TypeError
        | First_root z0 \<Rightarrow>
           let st = map (\<lambda>((a0', p, q, r), z). 
                      let s = csqrt (of_real (2 * p + 2 * z) + 0 * \<i>);
                          t = (if s = 0 then of_real (z * z + r) else - of_real q / s)
                      in (s, t)) (zip pre z0)
           in bind_err (multi_quadratic 1
                 (map (\<lambda>(z, (s, t)). (s, of_real z + t)) (zip z0 st))) (\<lambda>q1.
              bind_err (multi_quadratic 1
                 (map (\<lambda>(z, (s, t)). (- s, of_real z - t)) (zip z0 st))) (\<lambda>q2.
              Inr (map (\<lambda>((a0', p, q, r), ((r0, r1), (r2, r3))).
                     (r0 - of_real a0', r1 - of_real a0', r2 - of_real a0', r3 - of_real a0'))
                   (zip pre (zip q1 q2)))))))"

section \<open>The caller functions\<close>

text \<open>
  The argument of \<^verbatim>\<open>cubic_roots\<close> and \<^verbatim>\<open>quartic_roots\<close> after \<^verbatim>\<open>np.asarray\<close>: a vector, or a
  matrix with its number of columns and its rows (a matrix may have no row at all).
\<close>

datatype ndarray = Arr1 "real list" | Arr2 nat "real list list"

fun wf_ndarray :: "ndarray \<Rightarrow> bool" where
  "wf_ndarray (Arr1 v) = True"
| "wf_ndarray (Arr2 w rows) = list_all (\<lambda>r. length r = w) rows"

text \<open>\<^verbatim>\<open>p[np.newaxis, :]\<close> for a vector; the rows and \<^verbatim>\<open>p.shape[1]\<close> afterwards.\<close>

fun rows_of :: "ndarray \<Rightarrow> real list list" where
  "rows_of (Arr1 v) = [v]"
| "rows_of (Arr2 w rows) = rows"

fun shape1 :: "ndarray \<Rightarrow> nat" where
  "shape1 (Arr1 v) = length v"
| "shape1 (Arr2 w rows) = w"

text \<open>The decimal digits that \<^verbatim>\<open>'{:d}'.format(n)\<close> writes.\<close>

fun format_d :: "nat \<Rightarrow> string" where
  "format_d n = (if n < 10 then [''0123456789'' ! n]
                 else format_d (n div 10) @ [''0123456789'' ! (n mod 10)])"

definition cubic_roots :: "ndarray \<Rightarrow> error + complex list list" where
  "cubic_roots p =
     (if shape1 p \<noteq> 4 then
        Inl (ValueError (''Expected 3rd order polynomial with 4 coefficients, got ''
                          @ format_d (shape1 p) @ ''.''))
      else if length (rows_of p) < 100 then
        map_err (\<lambda>pi. case pi of
            [a0, b0, c0, d0] \<Rightarrow>
              bind_err (single_cubic a0 b0 c0 d0) (\<lambda>(r1, r2, r3). Inr [r1, r2, r3])
          | _ \<Rightarrow> Inl TypeError) (rows_of p)
      else
        bind_err (map_err (\<lambda>pi. case pi of
            [a0, b0, c0, d0] \<Rightarrow> Inr (a0, b0, c0, d0)
          | _ \<Rightarrow> Inl TypeError) (rows_of p)) (\<lambda>cols.
        bind_err (multi_cubic cols True) (\<lambda>res. case res of
            All_roots roots \<Rightarrow> Inr (map (\<lambda>(r1, r2, r3). [r1, r2, r3]) roots)
          | First_root roots \<Rightarrow> Inr (map (\<lambda>r1. [of_real r1]) roots))))"

definition quartic_roots :: "ndarray \<Rightarrow> error + complex list list" where
  "quartic_roots p =
     (if shape1 p \<noteq> 5 then
        Inl (ValueError (''Expected 4th order polynomial with 5 coefficients, got ''
                          @ format_d (shape1 p) @ ''.''))
      else if length (rows_of p) < 100 then
        map_err (\<lambda>pi. case pi of
            [a0, b0, c0, d0, e0] \<Rightarrow>
              bind_err (single_quartic a0 b0 c0 d0 e0) (\<lambda>(r0, r1, r2, r3). Inr [r0, r1, r2, r3])
          | _ \<Rightarrow> Inl TypeError) (rows_of p)
      else
        bind_err (map_err (\<lambda>pi. case pi of
            [a0, b0, c0, d0, e0] \<Rightarrow> Inr (a0, b0, c0, d0, e0)
          | _ \<Rightarrow> Inl TypeError) (rows_of p)) (\<lambda>cols.
        bind_err (multi_quartic cols) (\<lambda>roots.
          Inr (map (\<lambda>(r0, r1, r2, r3). [r0, r1, r2, r3]) roots))))"

section \<open>The energy-balance loops\<close>

text \<open>
  A float of the climate series may be \<^verbatim>\<open>nan\<close>: such a float is a \<open>real option\<close>, with
  \<open>None\<close> for \<^verbatim>\<open>nan\<close>. Arithmetic with \<^verbatim>\<open>nan\<close> gives \<^verbatim>\<open>nan\<close>, and every comparison with
  \<^verbatim>\<open>nan\<close> is false.
\<close>

type_synonym nanfloat = "real option"

definition nan_add :: "nanfloat \<Rightarrow> nanfloat \<Rightarrow> nanfloat" where
  "nan_add x y = (case x of None \<Rightarrow> None | Some u \<Rightarrow> (case y of None \<Rightarrow> None | Some v \<Rightarrow> Some (u + v)))"

definition nan_ge :: "nanfloat \<Rightarrow> real \<Rightarrow> bool" where
  "nan_ge x c = (case x of None \<Rightarrow> False | Some u \<Rightarrow> u \<ge> c)"

definition SBC :: real where "SBC = 5.67 / 10 ^ 8"
definition CP_I :: real where "CP_I = 2097.0"
definition LF_I :: real where "LF_I = 333500.0"

text \<open>\<^verbatim>\<open>xs[i]\<close> for an index that is not negative.\<close>

definition index :: "'a list \<Rightarrow> nat \<Rightarrow> error + 'a" where
  "index xs i = (if i < length xs then Inr (xs ! i) else Inl IndexError)"


text \<open>
  \<^verbatim>\<open>r[((np.isreal(r)) & (r>0))].real\<close>: the entries with zero imaginary part that are
  greater than zero in numpy's order of complex numbers (by real part, then by imaginary
  part), in the order of the array.
\<close>

definition select_real_positive :: "complex list \<Rightarrow> real list" where
  "select_real_positive r =
     map Re (filter (\<lambda>z. Im z = 0 \<and> (Re z > 0 \<or> (Re z = 0 \<and> Im z > 0))) r)"

text \<open>
  The truth value of a boolean array in an \<^verbatim>\<open>if\<close>. An array of one entry has the truth value
  of the entry, an array of several entries raises \<^verbatim>\<open>ValueError\<close>. For an empty array numpy
  before 2.2 answers \<^verbatim>\<open>False\<close> with a deprecation warning, and numpy from 2.2 on raises
  \<^verbatim>\<open>ValueError\<close>: the flag \<open>np_strict\<close> says which numpy runs the script.
\<close>

definition array_truth :: "bool \<Rightarrow> bool list \<Rightarrow> error + bool" where
  "array_truth np_strict bs =
     (case bs of
        [] \<Rightarrow> if np_strict
              then Inl (ValueError ''The truth value of an empty array is ambiguous.'')
              else Inr False
      | [b] \<Rightarrow> Inr b
      | _ \<Rightarrow> Inl (ValueError
          ''The truth value of an array with more than one element is ambiguous.''))"

text \<open>
  The coefficient \<^verbatim>\<open>e = -1 * (flux_df1[kk]*dt/(CP_I*m)+T_0)\<close>, and the lines that both loops
  share word for word: \<^verbatim>\<open>pmat\<close> with its \<^verbatim>\<open>nan\<close> entries set to zero, the call of
  \<^verbatim>\<open>quartic_roots\<close>, the selection of the real positive roots, and
  \<^verbatim>\<open>Tnew[np.isnan(e)] = np.nan\<close>, which overwrites every selected entry when \<open>e\<close> is \<^verbatim>\<open>nan\<close>
  and none otherwise.
\<close>

definition seb_e :: "nanfloat \<Rightarrow> real \<Rightarrow> real \<Rightarrow> nanfloat \<Rightarrow> nanfloat" where
  "seb_e flux_kk dt m T_0 =
     map_option (\<lambda>v. - 1 * v) (nan_add (map_option (\<lambda>f. f * dt / (CP_I * m)) flux_kk) T_0)"

definition seb_pmat :: "real \<Rightarrow> nanfloat \<Rightarrow> real list" where
  "seb_pmat a e = [a, 0, 0, 1, (case e of None \<Rightarrow> 0 | Some v \<Rightarrow> v)]"

definition seb_Tnew :: "real \<Rightarrow> nanfloat \<Rightarrow> error + nanfloat list" where
  "seb_Tnew a e =
     bind_err (quartic_roots (Arr1 (seb_pmat a e))) (\<lambda>r.
       let Tnew = select_real_positive (concat r)
       in Inr (if e = None then map (\<lambda>v. None) Tnew else map Some Tnew))"

text \<open>
  One pass through the body of the loop of \<^verbatim>\<open>calcSEB\<close>, on the arrays \<^verbatim>\<open>TcalcH\<close> and
  \<^verbatim>\<open>meltmassH\<close>. In the \<^verbatim>\<open>else\<close> branch the assignment \<^verbatim>\<open>TcalcH[kk] = Tnew\<close> stores the one
  entry of \<open>Tnew\<close>; for an empty \<open>Tnew\<close> it raises, the bare \<^verbatim>\<open>except\<close> catches the exception
  and prints \<open>kk\<close> and \<open>Tnew\<close>, and \<^verbatim>\<open>TcalcH[kk]\<close> keeps the zero of \<^verbatim>\<open>np.zeros_like\<close>.
  The arrays are as long as \<^verbatim>\<open>flux_df1\<close>, and \<^verbatim>\<open>flux_df1[kk]\<close> is read before they are written,
  so the writes at \<open>kk\<close> are in range.
\<close>

definition calcSEB_T_0 :: "nanfloat list \<Rightarrow> nanfloat list \<Rightarrow> nat \<Rightarrow> error + nanfloat" where
  "calcSEB_T_0 dts TcalcH kk = (if kk = 0 then index dts kk else index TcalcH (kk - 1))"


text \<open>A \<^verbatim>\<open>for\<close> loop over the step indices; an exception ends it.\<close>

fun run_steps :: "('s \<Rightarrow> nat \<Rightarrow> error + 's) \<Rightarrow> 's \<Rightarrow> nat list \<Rightarrow> error + 's" where
  "run_steps step st [] = Inr st"
| "run_steps step st (kk # kks) = bind_err (step st kk) (\<lambda>st'. run_steps step st' kks)"


text \<open>
  The loop of \<^verbatim>\<open>makeSpinFiles\<close> (branch \<^verbatim>\<open>not SEB and calc_melt\<close>) on the flux series
  \<^verbatim>\<open>flux_df1_r\<close>, the skin temperatures \<^verbatim>\<open>dts = df_CLIM.TSKIN.values\<close> and the mean time step
  \<open>dt\<close>. Here \<open>m = 400*0.08\<close>, the previous temperature is read from \<open>dts\<close>, and no
  \<^verbatim>\<open>try\<close> surrounds \<^verbatim>\<open>Tcalc[kk] = Tnew\<close>, which raises \<^verbatim>\<open>ValueError\<close> for an empty \<open>Tnew\<close>.
\<close>

definition makeSpinFiles_T_0 :: "nanfloat list \<Rightarrow> nat \<Rightarrow> error + nanfloat" where
  "makeSpinFiles_T_0 dts kk = (if kk = 0 then index dts kk else index dts (kk - 1))"

definition makeSpinFiles_step ::
  "bool \<Rightarrow> nanfloat list \<Rightarrow> nanfloat list \<Rightarrow> real \<Rightarrow>
     nanfloat list \<times> nanfloat list \<Rightarrow> nat \<Rightarrow> error + (nanfloat list \<times> nanfloat list)" where
  "makeSpinFiles_step np_strict flux_df1_r dts dt st kk = (case st of (Tcalc, meltmass) \<Rightarrow>
     let m = 400 * 0.08 in
     bind_err (makeSpinFiles_T_0 dts kk) (\<lambda>T_0.
     let a = SBC * dt / (CP_I * m) in
     bind_err (index flux_df1_r kk) (\<lambda>flux_kk.
     let e = seb_e flux_kk dt m T_0 in
     bind_err (seb_Tnew a e) (\<lambda>Tnew.
     bind_err (array_truth np_strict (map (\<lambda>v. nan_ge v 273.15) Tnew)) (\<lambda>clamp.
     if clamp then
       Inr (Tcalc[kk := Some 273.15],
            meltmass[kk := map_option (\<lambda>f. (f - SBC * 273.15 ^ 4) / LF_I * dt) flux_kk])
     else
       (case Tnew of
          [v] \<Rightarrow> Inr (Tcalc[kk := v], meltmass[kk := Some 0])
        | _ \<Rightarrow> Inl (ValueError ''setting an array element with a sequence.'')))))))"

definition makeSpinFiles_calc_melt ::
  "bool \<Rightarrow> nanfloat list \<Rightarrow> nanfloat list \<Rightarrow> real \<Rightarrow> 'd list
     \<Rightarrow> error + (nanfloat list \<times> nanfloat list)" where
  "makeSpinFiles_calc_melt np_strict flux_df1_r dts dt tindex =
     (let Tcalc = map (\<lambda>v. Some 0) flux_df1_r;
          meltmass = map (\<lambda>v. Some 0) flux_df1_r
      in run_steps (makeSpinFiles_step np_strict flux_df1_r dts dt) (Tcalc, meltmass)
           [0 ..< length tindex])"

section \<open>Quantities used in the statements\<close>

definition cubic_f :: "real \<Rightarrow> real \<Rightarrow> real" where
  "cubic_f a b = b / 3 - (a / 3)\<^sup>2"

definition cubic_g :: "real \<Rightarrow> real \<Rightarrow> real \<Rightarrow> real" where
  "cubic_g a b c = (a / 3) * (2 * (a / 3)\<^sup>2 - b) + c"

definition cubic_h :: "real \<Rightarrow> real \<Rightarrow> real \<Rightarrow> real" where
  "cubic_h a b c = (cubic_g a b c)\<^sup>2 / 4 + (cubic_f a b) ^ 3"

definition quartic_poly :: "real \<Rightarrow> real \<Rightarrow> real \<Rightarrow> real \<Rightarrow> real \<Rightarrow> complex \<Rightarrow> complex" where
  "quartic_poly a0 b0 c0 d0 e0 x =
     of_real a0 * x ^ 4 + of_real b0 * x ^ 3 + of_real c0 * x\<^sup>2 + of_real d0 * x + of_real e0"

definition quartic_p :: "real \<Rightarrow> real \<Rightarrow> real" where
  "quartic_p a b = 3 * (0.25 * a * (0.25 * a)) - 0.5 * b"

definition quartic_q :: "real \<Rightarrow> real \<Rightarrow> real \<Rightarrow> real" where
  "quartic_q a b c = a * (0.25 * a * (0.25 * a)) - b * (0.25 * a) + 0.5 * c"

definition quartic_r :: "real \<Rightarrow> real \<Rightarrow> real \<Rightarrow> real \<Rightarrow> real" where
  "quartic_r a b c d = 3 * (0.25 * a * (0.25 * a)) * (0.25 * a * (0.25 * a))
     - b * (0.25 * a * (0.25 * a)) + c * (0.25 * a) - d"

definition resolvent_root :: "real \<Rightarrow> real \<Rightarrow> real \<Rightarrow> real \<Rightarrow> real \<Rightarrow> error + complex" where
  "resolvent_root a0 b0 c0 d0 e0 =
     (let a = b0 / a0; b = c0 / a0; c = d0 / a0; d = e0 / a0;
          p = quartic_p a b; q = quartic_q a b c; r = quartic_r a b c d
      in single_cubic_one 1 p r (p * r - 0.5 * q * q))"

definition is_ValueError :: "error + 'a \<Rightarrow> bool" where
  "is_ValueError res = (case res of Inl (ValueError msg) \<Rightarrow> True | _ \<Rightarrow> False)"

text \<open>
  The quartic of the energy-balance loops is \<open>a * T\<^sup>4 + T + e\<close>. For it the solver has
  \<open>p = 0\<close>, \<open>q = 1 / (2 * a)\<close> and \<open>r = - e / a\<close>; \<open>seb_h\<close> is the quantity \<open>h\<close> of the
  resolvent cubic, \<open>seb_z0\<close> its root by Cardano's formula, and \<open>seb_root\<close> the larger
  root of the first quadratic factor.
\<close>

definition seb_q :: "real \<Rightarrow> real" where "seb_q a = 1 / (2 * a)"

definition seb_r :: "real \<Rightarrow> real \<Rightarrow> real" where "seb_r a ev = - ev / a"

definition seb_h :: "real \<Rightarrow> real \<Rightarrow> real" where
  "seb_h a ev = (seb_q a) ^ 4 / 16 + (seb_r a ev) ^ 3 / 27"

definition seb_z0 :: "real \<Rightarrow> real \<Rightarrow> real" where
  "seb_z0 a ev = root 3 ((seb_q a)\<^sup>2 / 4 + sqrt (seb_h a ev))
               + root 3 ((seb_q a)\<^sup>2 / 4 - sqrt (seb_h a ev))"

definition seb_s :: "real \<Rightarrow> real \<Rightarrow> real" where "seb_s a ev = sqrt (2 * seb_z0 a ev)"

definition seb_t :: "real \<Rightarrow> real \<Rightarrow> real" where "seb_t a ev = - seb_q a / seb_s a ev"

definition seb_d1 :: "real \<Rightarrow> real \<Rightarrow> real" where "seb_d1 a ev = - seb_z0 a ev / 2 - seb_t a ev"

definition seb_d2 :: "real \<Rightarrow> real \<Rightarrow> real" where "seb_d2 a ev = - seb_z0 a ev / 2 + seb_t a ev"

definition seb_root :: "real \<Rightarrow> real \<Rightarrow> real" where
  "seb_root a ev = - seb_s a ev / 2 + sqrt (seb_d1 a ev)"

definition sel :: "complex \<Rightarrow> bool" where
  "sel z = (Im z = 0 \<and> (Re z > 0 \<or> (Re z = 0 \<and> Im z > 0)))"



section \<open>Properties of the solvers\<close>

lemma Arg_of_real_nonneg: "0 \<le> x \<Longrightarrow> Arg (complex_of_real x) = 0"
proof (cases "x = 0")
  case True then show ?thesis by (simp add: Arg_zero)
next
  case False
  assume "0 \<le> x"
  with False have "0 < x" by simp
  then have "sgn (complex_of_real x) = cis 0"
    by (simp add: sgn_eq)
  then show ?thesis by (rule cis_Arg_unique) simp_all
qed

lemma cpow_third_of_real: "0 \<le> x \<Longrightarrow> cpow (of_real x) (1/3) = of_real (root 3 x)"
  by (simp add: cpow_def Arg_of_real_nonneg root_powr_inverse)

lemma cubic_root_of_real: "cubic_root (of_real x) = of_real (root 3 x)"
proof (cases "0 \<le> x")
  case True
  then show ?thesis by (simp add: cubic_root_def cpow_third_of_real)
next
  case False
  then have "0 \<le> - x" by simp
  from cpow_third_of_real[OF this] False show ?thesis
    by (simp add: cubic_root_def real_root_minus)
qed

lemma cardano_real:
  fixes f g :: real
  assumes h: "h = g\<^sup>2 / 4 + f ^ 3" and h0: "0 \<le> h"
  defines "S \<equiv> root 3 (- g / 2 + sqrt h)" and "U \<equiv> root 3 (- g / 2 - sqrt h)"
  shows "(S + U) ^ 3 + 3 * f * (S + U) + g = 0"
proof -
  have S3: "S ^ 3 = - g / 2 + sqrt h" unfolding S_def by (rule odd_real_root_pow) simp
  have U3: "U ^ 3 = - g / 2 - sqrt h" unfolding U_def by (rule odd_real_root_pow) simp
  have "(- g / 2 + sqrt h) * (- g / 2 - sqrt h) = g\<^sup>2 / 4 - (sqrt h)\<^sup>2"
    by (simp add: algebra_simps power2_eq_square)
  also have "\<dots> = (- f) ^ 3" using h0 h by simp
  finally have prod: "(- g / 2 + sqrt h) * (- g / 2 - sqrt h) = (- f) ^ 3" .
  have "S * U = root 3 ((- g / 2 + sqrt h) * (- g / 2 - sqrt h))"
    unfolding S_def U_def by (simp add: real_root_mult)
  also have "\<dots> = - f" unfolding prod by (rule odd_real_root_power_cancel) simp
  finally have SU: "S * U = - f" .
  have "(S + U) ^ 3 = S ^ 3 + U ^ 3 + 3 * (S * U) * (S + U)"
    by (simp add: power3_eq_cube algebra_simps)
  then show ?thesis unfolding S3 U3 SU by simp
qed

lemma sco_pos:
  fixes a0 b0 c0 d0 :: real
  defines "a \<equiv> b0 / a0" and "b \<equiv> c0 / a0" and "c \<equiv> d0 / a0"
  defines "f \<equiv> b / 3 - (a / 3)\<^sup>2"
  defines "g \<equiv> (a / 3) * (2 * (a / 3)\<^sup>2 - b) + c"
  defines "h \<equiv> g\<^sup>2 / 4 + f ^ 3"
  assumes "a0 \<noteq> 0" and "0 < h"
  shows "single_cubic_one a0 b0 c0 d0 =
     Inr (of_real (root 3 (- g / 2 + sqrt h) + root 3 (- g / 2 - sqrt h) - a / 3))"
proof -
  have e1: "1 / 3 * b - a * (1 / 3) * (a * (1 / 3)) = f"
    by (simp add: f_def power2_eq_square)
  have e2: "a * (1 / 3) * (2 * (a * (1 / 3) * (a * (1 / 3))) - b) + c = g"
    by (simp add: g_def power2_eq_square)
  have e3: "0.25 * g * g + f * f * f = h"
    by (simp add: h_def power2_eq_square power3_eq_cube)
  have cs: "csqrt (complex_of_real h) = of_real (sqrt h)"
    using \<open>0 < h\<close> by (simp add: csqrt_of_real)
  have S: "cubic_root (of_real (- 0.5 * g) + of_real (sqrt h)) = of_real (root 3 (- g / 2 + sqrt h))"
    using cubic_root_of_real[of "- g / 2 + sqrt h"] by simp
  have U: "cubic_root (of_real (- 0.5 * g) - of_real (sqrt h)) = of_real (root 3 (- g / 2 - sqrt h))"
    using cubic_root_of_real[of "- g / 2 - sqrt h"] by simp
  show ?thesis
    unfolding single_cubic_one_def Let_def a_def[symmetric] b_def[symmetric] c_def[symmetric] e1 e2 e3 cs S U
    using \<open>a0 \<noteq> 0\<close> \<open>0 < h\<close> by simp
qed

lemma csqrt_real_num: "0 \<le> x \<Longrightarrow> csqrt (complex_of_real (x * x)) = of_real x"
  by (simp add: csqrt_of_real)

lemma sco_16: "single_cubic_one 1 0 16 0 = Inr 0"
proof -
  have "single_cubic_one 1 0 16 0 = Inr (of_real (root 3 (- 0 / 2 + sqrt ((16/3)^3)) + root 3 (- 0 / 2 - sqrt ((16/3)^3)) - 0 / 3))"
    using sco_pos[of 1 0 16 0] by simp
  then show ?thesis by (simp add: real_root_minus)
qed

lemma sq16: "single_quartic 1 0 0 0 (- 16) = Inr (- 4 * \<i>, 4 * \<i>, - 4, 4)"
proof -
  have c1: "csqrt (- 16) = 4 * \<i>"
    using csqrt_of_real_nonpos[of "- 16"] by simp
  have c2: "csqrt 16 = 4"
    using csqrt_real_num[of 4] by simp
  show ?thesis
    by (simp add: single_quartic_def Let_def sco_16 bind_err_def single_quadratic_def c1 c2)
qed

lemma quad_root:
  assumes "single_quadratic 1 B C = Inr (r1, r2)"
  shows "r1\<^sup>2 + B * r1 + C = 0" and "r2\<^sup>2 + B * r2 + C = 0"
proof -
  define w where "w = csqrt ((B / 2)\<^sup>2 - C)"
  have w2: "w\<^sup>2 = (B / 2)\<^sup>2 - C" unfolding w_def by simp
  have r1: "r1 = - (B / 2) - w" and r2: "r2 = - (B / 2) + w"
    using assms by (simp_all add: single_quadratic_def Let_def w_def power2_eq_square)
  have "r1\<^sup>2 + B * r1 + C = w\<^sup>2 - ((B / 2)\<^sup>2 - C)"
    unfolding r1 by (simp add: power2_eq_square algebra_simps)
  then show "r1\<^sup>2 + B * r1 + C = 0" using w2 by simp
  have "r2\<^sup>2 + B * r2 + C = w\<^sup>2 - ((B / 2)\<^sup>2 - C)"
    unfolding r2 by (simp add: power2_eq_square algebra_simps)
  then show "r2\<^sup>2 + B * r2 + C = 0" using w2 by simp
qed

lemma depressed_factor:
  fixes y s z t p q r :: complex
  assumes "s\<^sup>2 = 2 * p + 2 * z" and "s * t = - q" and "t\<^sup>2 = z\<^sup>2 + r"
  shows "(y\<^sup>2 + s * y + (z + t)) * (y\<^sup>2 - s * y + (z - t)) = y ^ 4 - 2 * p * y\<^sup>2 + 2 * q * y - r"
proof -
  have "(y\<^sup>2 + s * y + (z + t)) * (y\<^sup>2 - s * y + (z - t))
      = y ^ 4 + (2 * z - s\<^sup>2) * y\<^sup>2 - 2 * (s * t) * y + (z\<^sup>2 - t\<^sup>2)"
    by (simp add: power2_eq_square power4_eq_xxxx algebra_simps)
  also have "\<dots> = y ^ 4 - 2 * p * y\<^sup>2 + 2 * q * y - r"
    unfolding assms by (simp add: algebra_simps)
  finally show ?thesis .
qed

lemma depress_shift:
  fixes y a b c d :: complex
  defines "A \<equiv> a / 4"
  defines "p \<equiv> 3 * A\<^sup>2 - b / 2"
  defines "q \<equiv> a * A\<^sup>2 - b * A + c / 2"
  defines "r \<equiv> 3 * A\<^sup>2 * A\<^sup>2 - b * A\<^sup>2 + c * A - d"
  shows "(y - A) ^ 4 + a * (y - A) ^ 3 + b * (y - A)\<^sup>2 + c * (y - A) + d
       = y ^ 4 - 2 * p * y\<^sup>2 + 2 * q * y - r"
  unfolding A_def p_def q_def r_def
  by (simp add: power2_eq_square power3_eq_cube power4_eq_xxxx field_simps)

lemma sco_cases:
  fixes a0 b0 c0 d0 :: real
  defines "a \<equiv> b0 / a0" and "b \<equiv> c0 / a0" and "c \<equiv> d0 / a0"
  assumes "a0 \<noteq> 0"
  shows "single_cubic_one a0 b0 c0 d0 =
    (if cubic_f a b = 0 \<and> cubic_g a b c = 0 then Inr (of_real (- root 3 c))
     else if cubic_h a b c \<le> 0 then Inl (NameError ''math'')
     else Inr (of_real (root 3 (- cubic_g a b c / 2 + sqrt (cubic_h a b c))
                      + root 3 (- cubic_g a b c / 2 - sqrt (cubic_h a b c)) - a / 3)))"
proof -
  have e1: "1 / 3 * b - a * (1 / 3) * (a * (1 / 3)) = cubic_f a b"
    by (simp add: cubic_f_def power2_eq_square)
  have e2: "a * (1 / 3) * (2 * (a * (1 / 3) * (a * (1 / 3))) - b) + c = cubic_g a b c"
    by (simp add: cubic_g_def power2_eq_square)
  have e3: "0.25 * cubic_g a b c * cubic_g a b c + cubic_f a b * cubic_f a b * cubic_f a b = cubic_h a b c"
    by (simp add: cubic_h_def power2_eq_square power3_eq_cube)
  have h0: "cubic_f a b = 0 \<and> cubic_g a b c = 0 \<Longrightarrow> cubic_h a b c = 0"
    by (simp add: cubic_h_def)
  have unf: "single_cubic_one a0 b0 c0 d0 =
      (if cubic_f a b = 0 \<and> cubic_g a b c = 0 \<and> cubic_h a b c = 0 then
           Inr (- cubic_root (of_real c))
         else if cubic_h a b c \<le> 0 then
           bind_err (math_sqrt (- cubic_f a b)) (\<lambda>j.
           bind_err (math_acos (- 0.5 * cubic_g a b c / (j * j * j))) (\<lambda>k.
           bind_err (math_cos (1 / 3 * k)) (\<lambda>m.
            Inr (of_real (2 * j * m - a * (1 / 3))))))
         else
           (let sqrt_h = csqrt (of_real (cubic_h a b c));
                S = cubic_root (of_real (- 0.5 * cubic_g a b c) + sqrt_h);
                U = cubic_root (of_real (- 0.5 * cubic_g a b c) - sqrt_h);
                S_plus_U = S + U
            in Inr (S_plus_U - of_real (a * (1 / 3)))))"
    unfolding single_cubic_one_def Let_def a_def[symmetric] b_def[symmetric] c_def[symmetric] e1 e2 e3
    using \<open>a0 \<noteq> 0\<close> by simp
  show ?thesis
  proof (cases "cubic_f a b = 0 \<and> cubic_g a b c = 0")
    case True
    then show ?thesis unfolding unf using h0 by (simp add: cubic_root_of_real)
  next
    case False
    show ?thesis
    proof (cases "cubic_h a b c \<le> 0")
      case True
      with False show ?thesis unfolding unf by (auto simp: bind_err_def math_sqrt_def)
    next
      case h: False
      then have cs: "csqrt (complex_of_real (cubic_h a b c)) = of_real (sqrt (cubic_h a b c))"
        by (simp add: csqrt_of_real)
      have S: "cubic_root (of_real (- 0.5 * cubic_g a b c) + of_real (sqrt (cubic_h a b c)))
           = of_real (root 3 (- cubic_g a b c / 2 + sqrt (cubic_h a b c)))"
        using cubic_root_of_real[of "- cubic_g a b c / 2 + sqrt (cubic_h a b c)"] by simp
      have U: "cubic_root (of_real (- 0.5 * cubic_g a b c) - of_real (sqrt (cubic_h a b c)))
           = of_real (root 3 (- cubic_g a b c / 2 - sqrt (cubic_h a b c)))"
        using cubic_root_of_real[of "- cubic_g a b c / 2 - sqrt (cubic_h a b c)"] by simp
      from False h show ?thesis unfolding unf Let_def cs S U by auto
    qed
  qed
qed

lemma cubic_depress:
  fixes z a b c :: real
  shows "(z - a / 3) ^ 3 + a * (z - a / 3)\<^sup>2 + b * (z - a / 3) + c
       = z ^ 3 + 3 * cubic_f a b * z + cubic_g a b c"
  unfolding cubic_f_def cubic_g_def
  by (simp add: power2_eq_square power3_eq_cube field_simps)

lemma sco_root:
  assumes "single_cubic_one a0 b0 c0 d0 = Inr z"
  shows "Im z = 0" and "a0 * (Re z) ^ 3 + b0 * (Re z)\<^sup>2 + c0 * Re z + d0 = 0"
proof -
  have a0: "a0 \<noteq> 0" using assms by (auto simp: single_cubic_one_def)
  define a b c where "a = b0 / a0" and "b = c0 / a0" and "c = d0 / a0"
  note sc = sco_cases[OF a0, of b0 c0 d0, folded a_def b_def c_def]
  have "Im z = 0 \<and> (Re z) ^ 3 + a * (Re z)\<^sup>2 + b * Re z + c = 0"
  proof (cases "cubic_f a b = 0 \<and> cubic_g a b c = 0")
    case True
    with assms sc have z: "z = of_real (- root 3 c)" by simp
    from True have b: "b = 3 * (a / 3)\<^sup>2"
      by (simp add: cubic_f_def)
    from True have "c = - ((a / 3) * (2 * (a / 3)\<^sup>2 - b))"
      by (simp add: cubic_g_def)
    then have c': "c = (a / 3) ^ 3"
      unfolding b by (simp add: power2_eq_square power3_eq_cube)
    have "root 3 c = a / 3" unfolding c' by (rule odd_real_root_power_cancel) simp
    then have Rz: "Re z = - (a / 3)" and Iz: "Im z = 0" using z by simp_all
    have "(Re z) ^ 3 + a * (Re z)\<^sup>2 + b * Re z + c = 0"
      unfolding Rz b c' by (simp add: power2_eq_square power3_eq_cube field_simps)
    with Iz show ?thesis by simp
  next
    case False
    with assms sc have h: "0 < cubic_h a b c"
      by (auto split: if_splits)
    define w where "w = root 3 (- cubic_g a b c / 2 + sqrt (cubic_h a b c))
                      + root 3 (- cubic_g a b c / 2 - sqrt (cubic_h a b c))"
    from False h assms sc have z: "z = of_real (w - a / 3)"
      by (auto simp: w_def split: if_splits)
    have "w ^ 3 + 3 * cubic_f a b * w + cubic_g a b c = 0"
      unfolding w_def by (rule cardano_real) (use h in \<open>simp_all add: cubic_h_def\<close>)
    then have "(w - a / 3) ^ 3 + a * (w - a / 3)\<^sup>2 + b * (w - a / 3) + c = 0"
      by (simp add: cubic_depress)
    then show ?thesis using z by simp
  qed
  then show "Im z = 0" and "a0 * (Re z) ^ 3 + b0 * (Re z)\<^sup>2 + c0 * Re z + d0 = 0"
    using a0 by (simp_all add: a_def b_def c_def field_simps)
qed

lemma single_quartic_unfold:
  fixes a0 b0 c0 d0 e0 :: real
  defines "a \<equiv> b0 / a0" and "b \<equiv> c0 / a0" and "c \<equiv> d0 / a0" and "d \<equiv> e0 / a0"
  assumes "a0 \<noteq> 0"
  shows "single_quartic a0 b0 c0 d0 e0 =
     bind_err (resolvent_root a0 b0 c0 d0 e0) (\<lambda>z0.
      let s = csqrt (of_real (2 * quartic_p a b + 2 * Re z0));
          t = (if s = 0 then z0 * z0 + of_real (quartic_r a b c d) else - of_real (quartic_q a b c) / s)
      in bind_err (single_quadratic 1 s (z0 + t)) (\<lambda>(r0, r1).
         bind_err (single_quadratic 1 (- s) (z0 - t)) (\<lambda>(r2, r3).
         Inr (r0 - of_real (0.25 * a), r1 - of_real (0.25 * a), r2 - of_real (0.25 * a), r3 - of_real (0.25 * a)))))"
  unfolding single_quartic_def resolvent_root_def quartic_p_def quartic_q_def quartic_r_def
    a_def b_def c_def d_def Let_def
  using \<open>a0 \<noteq> 0\<close> by (simp only: if_False)

lemma quartic_root_from_depressed:
  fixes a0 b0 c0 d0 e0 :: real and y :: complex
  defines "a \<equiv> b0 / a0" and "b \<equiv> c0 / a0" and "c \<equiv> d0 / a0" and "d \<equiv> e0 / a0"
  assumes a0: "a0 \<noteq> 0"
    and dep: "y ^ 4 - 2 * of_real (quartic_p a b) * y\<^sup>2 + 2 * of_real (quartic_q a b c) * y
               - of_real (quartic_r a b c d) = 0"
  shows "quartic_poly a0 b0 c0 d0 e0 (y - of_real (0.25 * a)) = 0"
proof -
  define A :: complex where "A = of_real a / 4"
  define x where "x = y - A"
  have p: "of_real (quartic_p a b) = 3 * A\<^sup>2 - of_real b / 2"
    by (simp add: quartic_p_def A_def power2_eq_square)
  have q: "of_real (quartic_q a b c) = of_real a * A\<^sup>2 - of_real b * A + of_real c / 2"
    by (simp add: quartic_q_def A_def power2_eq_square)
  have r: "of_real (quartic_r a b c d) = 3 * A\<^sup>2 * A\<^sup>2 - of_real b * A\<^sup>2 + of_real c * A - of_real d"
    by (simp add: quartic_r_def A_def power2_eq_square)
  have "x ^ 4 + of_real a * x ^ 3 + of_real b * x\<^sup>2 + of_real c * x + of_real d = 0"
    using dep unfolding p q r x_def A_def
    by (simp only: depress_shift[of y "of_real a" "of_real b" "of_real c" "of_real d"])
  then have "of_real a0 * (x ^ 4 + of_real a * x ^ 3 + of_real b * x\<^sup>2 + of_real c * x + of_real d) = 0"
    by simp
  moreover have "of_real a0 * (x ^ 4 + of_real a * x ^ 3 + of_real b * x\<^sup>2 + of_real c * x + of_real d)
     = quartic_poly a0 b0 c0 d0 e0 x"
    using a0 by (simp add: quartic_poly_def a_def b_def c_def d_def algebra_simps)
  ultimately have "quartic_poly a0 b0 c0 d0 e0 x = 0" by simp
  moreover have "x = y - of_real (0.25 * a)" by (simp add: x_def A_def)
  ultimately show ?thesis by simp
qed

lemma single_quartic_roots_gen:
  fixes a0 b0 c0 d0 e0 :: real
  defines "a \<equiv> b0 / a0" and "b \<equiv> c0 / a0" and "c \<equiv> d0 / a0" and "d \<equiv> e0 / a0"
  assumes res: "single_quartic a0 b0 c0 d0 e0 = Inr (r0, r1, r2, r3)"
    and z0: "resolvent_root a0 b0 c0 d0 e0 = Inr z0"
    and nz: "quartic_p a b + Re z0 \<noteq> 0"
  shows "quartic_poly a0 b0 c0 d0 e0 r0 = 0" "quartic_poly a0 b0 c0 d0 e0 r1 = 0"
        "quartic_poly a0 b0 c0 d0 e0 r2 = 0" "quartic_poly a0 b0 c0 d0 e0 r3 = 0"
proof -
  have a0: "a0 \<noteq> 0" using res by (auto simp: single_quartic_def)
  define p q r where "p = quartic_p a b" and "q = quartic_q a b c" and "r = quartic_r a b c d"
  define Z where "Z = Re z0"
  have sc: "single_cubic_one 1 p r (p * r - 0.5 * q * q) = Inr z0"
    using z0 by (simp add: resolvent_root_def Let_def p_def q_def r_def a_def b_def c_def d_def)
  have zr: "z0 = of_real Z" using sco_root(1)[OF sc] by (simp add: Z_def complex_eq_iff)
  have cub: "Z ^ 3 + p * Z\<^sup>2 + r * Z + (p * r - q * q / 2) = 0"
    using sco_root(2)[OF sc] by (simp add: Z_def)
  define s where "s = csqrt (of_real (2 * p + 2 * Z))"
  define t where "t = - of_real q / s"
  have s2: "s\<^sup>2 = 2 * of_real p + 2 * z0" by (simp add: s_def zr)
  have pz: "p + Z \<noteq> 0" using nz by (simp add: p_def Z_def)
  then have "complex_of_real (2 * p + 2 * Z) \<noteq> 0"
    unfolding of_real_eq_0_iff by simp
  then have sn: "s \<noteq> 0" unfolding s_def csqrt_eq_0 .
  have st: "s * t = - of_real q" using sn by (simp add: t_def)
  have "(p + Z) * (Z\<^sup>2 + r) = q * q / 2"
    using cub by (simp add: power2_eq_square power3_eq_cube algebra_simps)
  then have "(2 * p + 2 * Z) * (Z\<^sup>2 + r) = q\<^sup>2"
    by (simp add: power2_eq_square algebra_simps)
  then have "of_real ((2 * p + 2 * Z) * (Z\<^sup>2 + r)) = (of_real (q\<^sup>2) :: complex)" by simp
  then have "s\<^sup>2 * (z0\<^sup>2 + of_real r) = (of_real q)\<^sup>2"
    by (simp add: s2 zr algebra_simps)
  moreover have "(of_real q)\<^sup>2 = s\<^sup>2 * t\<^sup>2" using sn by (simp add: t_def power_divide)
  ultimately have "s\<^sup>2 * t\<^sup>2 = s\<^sup>2 * (z0\<^sup>2 + of_real r)" by metis
  then have t2: "t\<^sup>2 = z0\<^sup>2 + of_real r" using sn by auto
  have fac: "\<And>y. (y\<^sup>2 + s * y + (z0 + t)) * (y\<^sup>2 - s * y + (z0 - t))
       = y ^ 4 - 2 * of_real p * y\<^sup>2 + 2 * of_real q * y - of_real r"
    by (rule depressed_factor[OF s2 st t2])
  from res obtain y0 y1 y2 y3 where
    q1: "single_quadratic 1 s (z0 + t) = Inr (y0, y1)" and
    q2: "single_quadratic 1 (- s) (z0 - t) = Inr (y2, y3)" and
    rs: "r0 = y0 - of_real (0.25 * a)" "r1 = y1 - of_real (0.25 * a)"
        "r2 = y2 - of_real (0.25 * a)" "r3 = y3 - of_real (0.25 * a)"
    unfolding single_quartic_unfold[OF a0] z0 bind_err_def Let_def
      a_def[symmetric] b_def[symmetric] c_def[symmetric] d_def[symmetric]
      p_def[symmetric] q_def[symmetric] r_def[symmetric]
    using sn by (auto simp: t_def s_def Z_def split: sum.splits)
  have d0: "y0 ^ 4 - 2 * of_real p * y0\<^sup>2 + 2 * of_real q * y0 - of_real r = 0"
    using quad_root(1)[OF q1] fac[of y0, symmetric] by simp
  have d1: "y1 ^ 4 - 2 * of_real p * y1\<^sup>2 + 2 * of_real q * y1 - of_real r = 0"
    using quad_root(2)[OF q1] fac[of y1, symmetric] by simp
  have d2: "y2 ^ 4 - 2 * of_real p * y2\<^sup>2 + 2 * of_real q * y2 - of_real r = 0"
    using quad_root(1)[OF q2] fac[of y2, symmetric] by simp
  have d3: "y3 ^ 4 - 2 * of_real p * y3\<^sup>2 + 2 * of_real q * y3 - of_real r = 0"
    using quad_root(2)[OF q2] fac[of y3, symmetric] by simp
  note R = quartic_root_from_depressed[OF a0, of _ b0 c0 d0 e0,
      folded a_def b_def c_def d_def, folded p_def q_def r_def]
  show "quartic_poly a0 b0 c0 d0 e0 r0 = 0" unfolding rs by (rule R[OF d0])
  show "quartic_poly a0 b0 c0 d0 e0 r1 = 0" unfolding rs by (rule R[OF d1])
  show "quartic_poly a0 b0 c0 d0 e0 r2 = 0" unfolding rs by (rule R[OF d2])
  show "quartic_poly a0 b0 c0 d0 e0 r3 = 0" unfolding rs by (rule R[OF d3])
qed

lemma is_ValueError_simps [simp]:
  "is_ValueError (Inl (ValueError m)) = True"
  "is_ValueError (Inl (NameError m)) = False"
  "is_ValueError (Inl ZeroDivisionError) = False"
  "is_ValueError (Inl IndexError) = False"
  "is_ValueError (Inl TypeError) = False"
  "is_ValueError (Inr x) = False"
  by (simp_all add: is_ValueError_def)

lemma is_ValueError_bind:
  "is_ValueError (bind_err m f) \<longleftrightarrow> is_ValueError m \<or> (\<exists>x. m = Inr x \<and> is_ValueError (f x))"
  by (cases m) (auto simp: bind_err_def is_ValueError_def split: error.splits)

lemma is_ValueError_map_err:
  "(\<And>x. x \<in> set xs \<Longrightarrow> \<not> is_ValueError (f x)) \<Longrightarrow> \<not> is_ValueError (map_err f xs)"
  by (induction xs) (auto simp: is_ValueError_bind)

lemma single_quadratic_noVE: "\<not> is_ValueError (single_quadratic a b c)"
  by (simp add: single_quadratic_def Let_def)

lemma single_cubic_noVE: "\<not> is_ValueError (single_cubic a0 b0 c0 d0)"
  by (simp add: single_cubic_def Let_def math_sqrt_def bind_err_def)

lemma single_cubic_one_noVE: "\<not> is_ValueError (single_cubic_one a0 b0 c0 d0)"
  by (simp add: single_cubic_one_def Let_def math_sqrt_def bind_err_def)

lemma single_quartic_noVE: "\<not> is_ValueError (single_quartic a0 b0 c0 d0 e0)"
  by (auto simp: single_quartic_def Let_def is_ValueError_bind single_cubic_one_noVE
      single_quadratic_noVE split: prod.splits)

lemma multi_cubic_NameError: "multi_cubic rows all_roots = Inl (NameError ''math'')"
  by (simp add: multi_cubic_def math_sqrt_def bind_err_def)

lemma multi_quartic_noVE: "\<not> is_ValueError (multi_quartic rows)"
  unfolding multi_quartic_def multi_cubic_NameError
  by (subst is_ValueError_bind)
     (auto simp: bind_err_def Let_def intro!: is_ValueError_map_err split: prod.splits if_splits)

lemma cubic_roots_width:
  "(shape1 p \<noteq> 4 \<longrightarrow> cubic_roots p = Inl (ValueError
       (''Expected 3rd order polynomial with 4 coefficients, got '' @ format_d (shape1 p) @ ''.'')))
   \<and> (shape1 p = 4 \<longrightarrow> \<not> is_ValueError (cubic_roots p))"
proof -
  have "\<not> is_ValueError (map_err (\<lambda>pi. case pi of
            [a0, b0, c0, d0] \<Rightarrow>
              bind_err (single_cubic a0 b0 c0 d0) (\<lambda>(r1, r2, r3). Inr [r1, r2, r3])
          | _ \<Rightarrow> Inl TypeError) (rows_of p))"
    by (rule is_ValueError_map_err)
       (auto simp: is_ValueError_bind single_cubic_noVE split: list.splits)
  moreover have "\<not> is_ValueError (map_err (\<lambda>pi. case pi of
            [a0, b0, c0, d0] \<Rightarrow> Inr (a0, b0, c0, d0)
          | _ \<Rightarrow> Inl TypeError) (rows_of p))"
    by (rule is_ValueError_map_err) (auto split: list.splits)
  ultimately show ?thesis
    by (auto simp: cubic_roots_def is_ValueError_bind multi_cubic_NameError)
qed

lemma quartic_roots_width:
  "(shape1 p \<noteq> 5 \<longrightarrow> quartic_roots p = Inl (ValueError
       (''Expected 4th order polynomial with 5 coefficients, got '' @ format_d (shape1 p) @ ''.'')))
   \<and> (shape1 p = 5 \<longrightarrow> \<not> is_ValueError (quartic_roots p))"
proof -
  have "\<not> is_ValueError (map_err (\<lambda>pi. case pi of
            [a0, b0, c0, d0, e0] \<Rightarrow>
              bind_err (single_quartic a0 b0 c0 d0 e0) (\<lambda>(r0, r1, r2, r3). Inr [r0, r1, r2, r3])
          | _ \<Rightarrow> Inl TypeError) (rows_of p))"
    by (rule is_ValueError_map_err)
       (auto simp: is_ValueError_bind single_quartic_noVE split: list.splits)
  moreover have "\<not> is_ValueError (map_err (\<lambda>pi. case pi of
            [a0, b0, c0, d0, e0] \<Rightarrow> Inr (a0, b0, c0, d0, e0)
          | _ \<Rightarrow> Inl TypeError) (rows_of p))"
    by (rule is_ValueError_map_err) (auto split: list.splits)
  ultimately show ?thesis
    by (auto simp: quartic_roots_def is_ValueError_bind multi_quartic_noVE)
qed

section \<open>The quartic of the energy-balance loops\<close>

lemma seb_pqr:
  assumes "a \<noteq> 0"
  shows "quartic_p (0 / a) (0 / a) = 0" "quartic_q (0 / a) (0 / a) (1 / a) = seb_q a"
        "quartic_r (0 / a) (0 / a) (1 / a) (ev / a) = seb_r a ev"
  by (simp_all add: quartic_p_def quartic_q_def quartic_r_def seb_q_def seb_r_def)

lemma seb_cubic_fgh:
  "cubic_f 0 r = r / 3" "cubic_g 0 r c = c" "cubic_h 0 r c = c\<^sup>2 / 4 + (r / 3) ^ 3"
  by (simp_all add: cubic_f_def cubic_g_def cubic_h_def)

lemma sco_depressed:
  "single_cubic_one 1 0 r c =
     (if r = 0 \<and> c = 0 then Inr (of_real (- root 3 c))
      else if c\<^sup>2 / 4 + (r / 3) ^ 3 \<le> 0 then Inl (NameError ''math'')
      else Inr (of_real (root 3 (- c / 2 + sqrt (c\<^sup>2 / 4 + (r / 3) ^ 3))
                       + root 3 (- c / 2 - sqrt (c\<^sup>2 / 4 + (r / 3) ^ 3)))))"
  using sco_cases[of 1 0 r c] by (simp add: seb_cubic_fgh)

lemma seb_resolvent:
  assumes a: "a \<noteq> 0"
  shows "resolvent_root a 0 0 1 ev =
     (if seb_h a ev \<le> 0 then Inl (NameError ''math'') else Inr (of_real (seb_z0 a ev)))"
proof -
  have q0: "seb_q a \<noteq> 0" using a by (simp add: seb_q_def)
  define c where "c = - ((seb_q a)\<^sup>2 / 2)"
  have c0: "c \<noteq> 0" using q0 by (simp add: c_def)
  have rr: "resolvent_root a 0 0 1 ev = single_cubic_one 1 0 (seb_r a ev) c"
    unfolding resolvent_root_def Let_def seb_pqr[OF a] by (simp add: c_def power2_eq_square)
  have h: "c\<^sup>2 / 4 + (seb_r a ev / 3) ^ 3 = seb_h a ev"
    by (simp add: c_def seb_h_def power2_eq_square power3_eq_cube power4_eq_xxxx field_simps)
  have z: "root 3 (- c / 2 + sqrt (seb_h a ev)) + root 3 (- c / 2 - sqrt (seb_h a ev)) = seb_z0 a ev"
    by (simp add: c_def seb_z0_def)
  show ?thesis
    unfolding rr sco_depressed h z using c0 by simp
qed

lemma seb_z0_cubic:
  assumes "0 < seb_h a ev"
  shows "(seb_z0 a ev) ^ 3 + seb_r a ev * seb_z0 a ev - (seb_q a)\<^sup>2 / 2 = 0"
proof -
  have "seb_h a ev = (- ((seb_q a)\<^sup>2 / 2))\<^sup>2 / 4 + (seb_r a ev / 3) ^ 3"
    by (simp add: seb_h_def power2_eq_square power3_eq_cube power4_eq_xxxx field_simps)
  from cardano_real[OF this] assms
  show ?thesis by (simp add: seb_z0_def)
qed

lemma seb_z0_pos:
  assumes a: "a \<noteq> 0"
  shows "0 < seb_z0 a ev"
proof -
  have q0: "0 < (seb_q a)\<^sup>2" using a by (simp add: seb_q_def)
  define X where "X = (seb_q a)\<^sup>2 / 4 + sqrt (seb_h a ev)"
  define Y where "Y = (seb_q a)\<^sup>2 / 4 - sqrt (seb_h a ev)"
  have "- Y < X" using q0 by (simp add: X_def Y_def)
  then have "root 3 (- Y) < root 3 X" by simp
  then have "0 < root 3 X + root 3 Y" by (simp add: real_root_minus)
  then show ?thesis unfolding seb_z0_def X_def Y_def .
qed

lemma seb_s_pos: "a \<noteq> 0 \<Longrightarrow> 0 < seb_s a ev"
  using seb_z0_pos[of a ev] by (simp add: seb_s_def)

lemma seb_s_sq: "a \<noteq> 0 \<Longrightarrow> (seb_s a ev)\<^sup>2 = 2 * seb_z0 a ev"
  using seb_z0_pos[of a ev] by (simp add: seb_s_def)

lemma seb_quartic:
  assumes a: "a \<noteq> 0" and h: "0 < seb_h a ev"
  shows "single_quartic a 0 0 1 ev =
     Inr (of_real (- seb_s a ev / 2) - csqrt (of_real (seb_d1 a ev)),
          of_real (- seb_s a ev / 2) + csqrt (of_real (seb_d1 a ev)),
          of_real (seb_s a ev / 2) - csqrt (of_real (seb_d2 a ev)),
          of_real (seb_s a ev / 2) + csqrt (of_real (seb_d2 a ev)))"
proof -
  define Z s t where "Z = seb_z0 a ev" and "s = seb_s a ev" and "t = seb_t a ev"
  have sp: "0 < s" unfolding s_def by (rule seb_s_pos[OF a])
  have s2: "s * s = 2 * Z" using seb_s_sq[OF a, of ev] by (simp add: s_def Z_def power2_eq_square)
  have cs: "csqrt (complex_of_real (2 * Z)) = of_real s"
    using seb_z0_pos[OF a, of ev] by (simp add: s_def seb_s_def Z_def csqrt_of_real)
  have sn: "complex_of_real s \<noteq> 0" using sp by simp
  have tt: "- complex_of_real (seb_q a) / complex_of_real s = of_real t"
    by (simp add: t_def seb_t_def s_def)
  have d1: "complex_of_real s * complex_of_real s / 4 - (complex_of_real Z + complex_of_real t)
      = of_real (seb_d1 a ev)"
  proof -
    have "complex_of_real s * complex_of_real s = of_real (2 * Z)"
      unfolding s2[symmetric] by simp
    then show ?thesis by (simp add: seb_d1_def Z_def t_def)
  qed
  have d2: "complex_of_real s * complex_of_real s / 4 - (complex_of_real Z - complex_of_real t)
      = of_real (seb_d2 a ev)"
  proof -
    have "complex_of_real s * complex_of_real s = of_real (2 * Z)"
      unfolding s2[symmetric] by simp
    then show ?thesis by (simp add: seb_d2_def Z_def t_def)
  qed
  have q1: "single_quadratic 1 (of_real s) (of_real Z + of_real t)
      = Inr (of_real (- s / 2) - csqrt (of_real (seb_d1 a ev)),
             of_real (- s / 2) + csqrt (of_real (seb_d1 a ev)))"
    unfolding single_quadratic_def Let_def by (simp add: d1)
  have q2: "single_quadratic 1 (- of_real s) (of_real Z - of_real t)
      = Inr (of_real (s / 2) - csqrt (of_real (seb_d2 a ev)),
             of_real (s / 2) + csqrt (of_real (seb_d2 a ev)))"
    unfolding single_quadratic_def Let_def by (simp add: d2)
  have res: "resolvent_root a 0 0 1 ev = Inr (of_real Z)"
    using seb_resolvent[OF a, of ev] h by (simp add: Z_def)
  have seq: "csqrt (complex_of_real (2 * 0 + 2 * Re (complex_of_real Z))) = of_real s"
    using cs by simp
  have "single_quartic a 0 0 1 ev =
     Inr (of_real (- s / 2) - csqrt (of_real (seb_d1 a ev)) - of_real (0.25 * (0 / a)),
          of_real (- s / 2) + csqrt (of_real (seb_d1 a ev)) - of_real (0.25 * (0 / a)),
          of_real (s / 2) - csqrt (of_real (seb_d2 a ev)) - of_real (0.25 * (0 / a)),
          of_real (s / 2) + csqrt (of_real (seb_d2 a ev)) - of_real (0.25 * (0 / a)))"
    unfolding single_quartic_unfold[OF a] res seb_pqr[OF a]
    by (simp only: bind_err_def Let_def sum.case seq sn if_False tt q1 q2 prod.case)
  then show ?thesis by (simp add: s_def)
qed

lemma seb_t_neg: "0 < a \<Longrightarrow> seb_t a ev < 0"
  using seb_s_pos[of a ev] by (simp add: seb_t_def seb_q_def)

lemma seb_t_sq:
  assumes a: "0 < a" and h: "0 < seb_h a ev"
  shows "(seb_t a ev)\<^sup>2 = (seb_z0 a ev)\<^sup>2 + seb_r a ev"
proof -
  define Z where "Z = seb_z0 a ev"
  have Zp: "0 < Z" unfolding Z_def using a by (intro seb_z0_pos) simp
  have "Z ^ 3 + seb_r a ev * Z - (seb_q a)\<^sup>2 / 2 = 0"
    unfolding Z_def by (rule seb_z0_cubic[OF h])
  then have "(seb_q a)\<^sup>2 = 2 * Z * (Z\<^sup>2 + seb_r a ev)"
    by (simp add: power2_eq_square power3_eq_cube algebra_simps)
  moreover have "(seb_t a ev)\<^sup>2 = (seb_q a)\<^sup>2 / (2 * Z)"
    using seb_s_sq[of a ev] a by (simp add: seb_t_def power_divide Z_def)
  ultimately show ?thesis using Zp by (simp add: Z_def)
qed

lemma seb_sum_sign:
  assumes a: "0 < a" and h: "0 < seb_h a ev"
  shows "seb_z0 a ev + seb_t a ev < 0 \<longleftrightarrow> ev < 0"
proof -
  define Z t where "Z = seb_z0 a ev" and "t = seb_t a ev"
  have Zp: "0 < Z" unfolding Z_def using a by (intro seb_z0_pos) simp
  have tn: "t < 0" unfolding t_def by (rule seb_t_neg[OF a])
  have "(Z + t) * (Z - t) = Z\<^sup>2 - t\<^sup>2" by (simp add: power2_eq_square algebra_simps)
  also have "\<dots> = - seb_r a ev" using seb_t_sq[OF a h] by (simp add: Z_def t_def)
  also have "\<dots> = ev / a" by (simp add: seb_r_def)
  finally have prod: "(Z + t) * (Z - t) = ev / a" .
  have pos: "0 < Z - t" using Zp tn by simp
  have "Z + t < 0 \<longleftrightarrow> (Z + t) * (Z - t) < 0"
    using pos by (simp add: mult_less_0_iff)
  also have "\<dots> \<longleftrightarrow> ev < 0" unfolding prod using a by (simp add: divide_less_0_iff)
  finally show ?thesis by (simp add: Z_def t_def)
qed

lemma seb_root_iff:
  assumes a: "0 < a" and h: "0 < seb_h a ev"
  shows "(0 \<le> seb_d1 a ev \<and> 0 < seb_root a ev) \<longleftrightarrow> ev < 0"
proof -
  define Z s t d where "Z = seb_z0 a ev" and "s = seb_s a ev" and "t = seb_t a ev"
    and "d = seb_d1 a ev"
  have a0: "a \<noteq> 0" using a by simp
  have sp: "0 < s" unfolding s_def by (rule seb_s_pos[OF a0])
  have s2: "s\<^sup>2 = 2 * Z" unfolding s_def Z_def by (rule seb_s_sq[OF a0])
  have d: "d = - Z / 2 - t" by (simp add: d_def seb_d1_def Z_def t_def)
  have "(0 \<le> d \<and> s / 2 < sqrt d) \<longleftrightarrow> (s / 2)\<^sup>2 < d"
  proof
    assume "0 \<le> d \<and> s / 2 < sqrt d"
    then have "(s / 2)\<^sup>2 < (sqrt d)\<^sup>2" using sp by (intro power_strict_mono) simp_all
    with \<open>0 \<le> d \<and> s / 2 < sqrt d\<close> show "(s / 2)\<^sup>2 < d" by simp
  next
    assume l: "(s / 2)\<^sup>2 < d"
    then have d0: "0 \<le> d" by (smt (verit) zero_le_power2)
    from l have "sqrt ((s / 2)\<^sup>2) < sqrt d" by (rule real_sqrt_less_mono)
    moreover have "sqrt ((s / 2)\<^sup>2) = s / 2" using sp by (subst real_sqrt_abs) simp
    ultimately have "s / 2 < sqrt d" by simp
    with d0 show "0 \<le> d \<and> s / 2 < sqrt d" by simp
  qed
  also have "(s / 2)\<^sup>2 < d \<longleftrightarrow> Z + t < 0"
  proof -
    have "(s / 2)\<^sup>2 = Z / 2" using s2 by (simp add: power_divide)
    then show ?thesis unfolding d by auto
  qed
  also have "\<dots> \<longleftrightarrow> ev < 0" unfolding Z_def t_def by (rule seb_sum_sign[OF a h])
  finally show ?thesis by (simp add: seb_root_def d_def s_def)
qed

lemma seb_select:
  assumes a: "0 < a" and h: "0 < seb_h a ev"
  shows "select_real_positive
     [of_real (- seb_s a ev / 2) - csqrt (of_real (seb_d1 a ev)),
      of_real (- seb_s a ev / 2) + csqrt (of_real (seb_d1 a ev)),
      of_real (seb_s a ev / 2) - csqrt (of_real (seb_d2 a ev)),
      of_real (seb_s a ev / 2) + csqrt (of_real (seb_d2 a ev))]
     = (if ev < 0 then [seb_root a ev] else [])"
proof -
  have a0: "a \<noteq> 0" using a by simp
  define s d1 d2 where "s = seb_s a ev" and "d1 = seb_d1 a ev" and "d2 = seb_d2 a ev"
  have sp: "0 < s" unfolding s_def by (rule seb_s_pos[OF a0])
  have d2n: "d2 < 0"
    using seb_z0_pos[OF a0, of ev] seb_t_neg[OF a, of ev] by (simp add: d2_def seb_d2_def)
  have c2: "csqrt (of_real d2) = \<i> * of_real (sqrt \<bar>d2\<bar>)"
    using d2n by simp
  have nz2: "sqrt \<bar>d2\<bar> \<noteq> 0" using d2n by simp
  have r2: "\<not> sel (of_real (s / 2) - csqrt (of_real d2))"
    and r3: "\<not> sel (of_real (s / 2) + csqrt (of_real d2))"
    unfolding c2 sel_def using nz2 by simp_all
  show ?thesis
  proof (cases "0 \<le> d1")
    case True
    then have c1: "csqrt (of_real d1) = of_real (sqrt d1)" by (simp add: csqrt_of_real)
    have "0 \<le> sqrt d1" using True by simp
    then have "- s / 2 - sqrt d1 < 0" using sp by linarith
    then have r0: "\<not> sel (of_real (- s / 2) - csqrt (of_real d1))"
      unfolding c1 sel_def by simp
    have r1: "sel (of_real (- s / 2) + csqrt (of_real d1)) \<longleftrightarrow> 0 < seb_root a ev"
      unfolding c1 sel_def by (simp add: seb_root_def s_def d1_def)
    have re1: "Re (of_real (- s / 2) + csqrt (of_real d1)) = seb_root a ev"
      unfolding c1 by (simp add: seb_root_def s_def d1_def)
    have "0 < seb_root a ev \<longleftrightarrow> ev < 0"
      using seb_root_iff[OF a h] True by (simp add: d1_def)
    with r0 r1 r2 r3 re1 show ?thesis
      unfolding select_real_positive_def sel_def[symmetric] s_def[symmetric] d1_def[symmetric] d2_def[symmetric]
      by simp
  next
    case False
    then have c1: "csqrt (of_real d1) = \<i> * of_real (sqrt \<bar>d1\<bar>)" by simp
    have nz1: "sqrt \<bar>d1\<bar> \<noteq> 0" using False by simp
    have r0: "\<not> sel (of_real (- s / 2) - csqrt (of_real d1))"
      and r1: "\<not> sel (of_real (- s / 2) + csqrt (of_real d1))"
      unfolding c1 sel_def using nz1 by simp_all
    have "\<not> ev < 0" using seb_root_iff[OF a h] False by (simp add: d1_def)
    with r0 r1 r2 r3 show ?thesis
      unfolding select_real_positive_def sel_def[symmetric] s_def[symmetric] d1_def[symmetric] d2_def[symmetric]
      by simp
  qed
qed

lemma quartic_roots_single:
  "quartic_roots (Arr1 [a0, b0, c0, d0, e0]) =
     bind_err (single_quartic a0 b0 c0 d0 e0) (\<lambda>(r0, r1, r2, r3). Inr [[r0, r1, r2, r3]])"
  by (cases "single_quartic a0 b0 c0 d0 e0")
     (auto simp: quartic_roots_def bind_err_def split: prod.splits)

lemma seb_h_pos: "0 < a \<Longrightarrow> ev \<le> 0 \<Longrightarrow> 0 < seb_h a ev"
proof -
  assume a: "0 < a" and e: "ev \<le> 0"
  have "0 < (seb_q a) ^ 4" using a by (simp add: seb_q_def)
  moreover have "0 \<le> seb_r a ev" using a e by (simp add: seb_r_def divide_nonpos_pos)
  then have "0 \<le> (seb_r a ev) ^ 3" by simp
  ultimately show ?thesis unfolding seb_h_def
    by (smt (verit) divide_nonneg_pos divide_pos_pos)
qed

lemma seb_Tnew_real:
  assumes a: "0 < a"
  shows "seb_Tnew a (Some ev) =
     (if seb_h a ev \<le> 0 then Inl (NameError ''math'')
      else if ev < 0 then Inr [Some (seb_root a ev)] else Inr [])"
proof (cases "seb_h a ev \<le> 0")
  case True
  have a0: "a \<noteq> 0" using a by simp
  have "single_quartic a 0 0 1 ev = Inl (NameError ''math'')"
    unfolding single_quartic_unfold[OF a0] using seb_resolvent[OF a0, of ev] True
    by (simp add: bind_err_def)
  with True show ?thesis
    by (simp add: seb_Tnew_def seb_pmat_def quartic_roots_single bind_err_def)
next
  case False
  then have h: "0 < seb_h a ev" by simp
  have a0: "a \<noteq> 0" using a by simp
  show ?thesis
    using False seb_select[OF a h]
    by (simp add: seb_Tnew_def seb_pmat_def quartic_roots_single bind_err_def
        seb_quartic[OF a0 h] Let_def)
qed


lemma seb_root_is_root:
  assumes a: "0 < a" and e: "ev < 0"
  shows "0 < seb_root a ev" and "a * (seb_root a ev) ^ 4 + seb_root a ev + ev = 0"
proof -
  have a0: "a \<noteq> 0" using a by simp
  have h: "0 < seb_h a ev" using a e by (intro seb_h_pos) simp_all
  from seb_root_iff[OF a h] e have d: "0 \<le> seb_d1 a ev" and p: "0 < seb_root a ev" by simp_all
  show "0 < seb_root a ev" by (rule p)
  have c1: "csqrt (of_real (seb_d1 a ev)) = of_real (sqrt (seb_d1 a ev))"
    using d by (simp add: csqrt_of_real)
  have res: "resolvent_root a 0 0 1 ev = Inr (of_real (seb_z0 a ev))"
    using seb_resolvent[OF a0, of ev] h by simp
  have nz: "quartic_p (0 / a) (0 / a) + Re (complex_of_real (seb_z0 a ev)) \<noteq> 0"
    using seb_z0_pos[OF a0, of ev] by (simp add: quartic_p_def)
  have "quartic_poly a 0 0 1 ev (of_real (- seb_s a ev / 2) + csqrt (of_real (seb_d1 a ev))) = 0"
    by (rule single_quartic_roots_gen(2)[OF seb_quartic[OF a0 h] res nz])
  then have "quartic_poly a 0 0 1 ev (of_real (seb_root a ev)) = 0"
    unfolding c1 by (simp add: seb_root_def)
  then have "complex_of_real (a * (seb_root a ev) ^ 4 + seb_root a ev + ev) = 0"
    by (simp add: quartic_poly_def)
  then show "a * (seb_root a ev) ^ 4 + seb_root a ev + ev = 0"
    unfolding of_real_eq_0_iff .
qed

lemma seb_poly_unique:
  fixes a e x y :: real
  assumes a: "0 < a" and x: "0 < x" and y: "0 < y"
    and px: "a * x ^ 4 + x + e = 0" and py: "a * y ^ 4 + y + e = 0"
  shows "x = y"
proof (rule ccontr)
  assume ne: "x \<noteq> y"
  have mono: "a * u ^ 4 + u + e < a * v ^ 4 + v + e" if "0 < u" "u < v" for u v :: real
  proof -
    have "u ^ 4 < v ^ 4" using that by (intro power_strict_mono) simp_all
    then have "a * u ^ 4 < a * v ^ 4" using a by simp
    with that show ?thesis by simp
  qed
  from ne consider "x < y" | "y < x" by linarith
  then show False
  proof cases
    case 1 from mono[OF x 1] px py show False by simp
  next
    case 2 from mono[OF y 2] px py show False by simp
  qed
qed

section \<open>Further facts about the selection and the batched path\<close>

lemma seb_Tnew_of_root:
  assumes a: "0 < a" and T: "0 < T"
  shows "seb_Tnew a (Some (- (a * T ^ 4 + T))) = Inr [Some T]"
proof -
  define ev where "ev = - (a * T ^ 4 + T)"
  have "0 < a * T ^ 4" using a T by simp
  then have e: "ev < 0" using T by (simp add: ev_def)
  have h: "0 < seb_h a ev" using a e by (intro seb_h_pos) simp_all
  have "seb_root a ev = T"
    by (rule seb_poly_unique[OF a seb_root_is_root(1)[OF a e] T seb_root_is_root(2)[OF a e]])
       (simp add: ev_def)
  then show ?thesis using seb_Tnew_real[OF a, of ev] h e by (simp add: ev_def)
qed

lemma seb_positive_root_selected:
  assumes a: "0 < a" and x: "Im x = 0" "0 < Re x" "quartic_poly a 0 0 1 e x = 0"
  shows "seb_Tnew a (Some e) = Inr [Some (Re x)]"
proof -
  have xr: "x = of_real (Re x)" using x(1) by (simp add: complex_eq_iff)
  have "quartic_poly a 0 0 1 e (of_real (Re x)) = 0" using x(3) xr by simp
  then have "complex_of_real (a * (Re x) ^ 4 + Re x + e) = 0"
    by (simp add: quartic_poly_def)
  then have "a * (Re x) ^ 4 + Re x + e = 0" unfolding of_real_eq_0_iff .
  then have "e = - (a * (Re x) ^ 4 + Re x)" by simp
  then show ?thesis using seb_Tnew_of_root[OF a x(2)] by simp
qed

lemma map_err_Inr: "(\<And>x. x \<in> set xs \<Longrightarrow> f x = Inr (g x)) \<Longrightarrow> map_err f xs = Inr (map g xs)"
  by (induction xs) (simp_all add: bind_err_def)

lemma multi_quartic_NameError:
  assumes "\<And>a0 b0 c0 d0 e0. (a0, b0, c0, d0, e0) \<in> set rows \<Longrightarrow> a0 \<noteq> 0"
  shows "multi_quartic rows = Inl (NameError ''math'')"
proof -
  define g :: "real \<times> real \<times> real \<times> real \<times> real \<Rightarrow> real \<times> real \<times> real \<times> real" where
    "g = (\<lambda>(a0, b0, c0, d0, e0).
        let a = b0 / a0; b = c0 / a0; c = d0 / a0; d = e0 / a0;
            a0' = 0.25 * a;
            a02 = a0' * a0';
            p = 3 * a02 - 0.5 * b;
            q = a * a02 - b * a0' + 0.5 * c;
            r = 3 * a02 * a02 - b * a02 + c * a0' - d
        in (a0', p, q, r))"
  have "map_err (\<lambda>(a0, b0, c0, d0, e0).
        if a0 = 0 then Inl ZeroDivisionError else
        let a = b0 / a0; b = c0 / a0; c = d0 / a0; d = e0 / a0;
            a0' = 0.25 * a;
            a02 = a0' * a0';
            p = 3 * a02 - 0.5 * b;
            q = a * a02 - b * a0' + 0.5 * c;
            r = 3 * a02 * a02 - b * a02 + c * a0' - d
        in Inr (a0', p, q, r)) rows = Inr (map g rows)"
    by (rule map_err_Inr) (use assms in \<open>auto simp: g_def Let_def\<close>)
  then show ?thesis
    unfolding multi_quartic_def by (simp add: bind_err_def multi_cubic_NameError)
qed

lemma sco_1: "single_cubic_one 1 0 1 0 = Inr 0"
  using sco_depressed[of 1 0] by (simp add: real_root_minus)

lemma sq1: "single_quartic 1 0 0 0 (- 1) = Inr (- \<i>, \<i>, - 1, 1)"
proof -
  have c1: "csqrt (- 1) = \<i>"
    using csqrt_of_real_nonpos[of "- 1"] by simp
  show ?thesis
    by (simp add: single_quartic_def Let_def sco_1 bind_err_def single_quadratic_def c1)
qed

section \<open>One step of the loop of calcSEB\<close>


lemma seb_e_Some: "seb_e (Some F) dt m (Some T_0) = Some (- (F * dt / (CP_I * m) + T_0))"
  by (simp add: seb_e_def nan_add_def)

lemma seb_e_None [simp]: "seb_e None dt m T_0 = None" "seb_e F dt m None = None"
  by (simp_all add: seb_e_def nan_add_def split: option.splits)









section \<open>The loops\<close>

lemma makeSpinFiles_step_unfold:
  assumes "makeSpinFiles_T_0 dts kk = Inr T_0"
    and "index flux_df1_r kk = Inr flux_kk"
    and "seb_Tnew (SBC * dt / (CP_I * 32)) (seb_e flux_kk dt 32 T_0) = Inr Tnew"
  shows "makeSpinFiles_step np_strict flux_df1_r dts dt (Tcalc, meltmass) kk =
     bind_err (array_truth np_strict (map (\<lambda>v. nan_ge v 273.15) Tnew)) (\<lambda>clamp.
     if clamp then
       Inr (Tcalc[kk := Some 273.15],
            meltmass[kk := map_option (\<lambda>f. (f - SBC * 273.15 ^ 4) / LF_I * dt) flux_kk])
     else
       (case Tnew of
          [v] \<Rightarrow> Inr (Tcalc[kk := v], meltmass[kk := Some 0])
        | _ \<Rightarrow> Inl (ValueError ''setting an array element with a sequence.'')))"
  unfolding makeSpinFiles_step_def using assms by (simp add: bind_err_def Let_def)

lemma Tnew_200_spin:
  "seb_Tnew (SBC * 3600 / (CP_I * 32)) (seb_e (Some (- 841.28)) 3600 32 (Some 250)) = Inr [Some 200]"
proof -
  have "seb_e (Some (- 841.28)) 3600 32 (Some 250)
      = Some (- (SBC * 3600 / (CP_I * 32) * 200 ^ 4 + 200))"
    by (simp add: seb_e_Some SBC_def CP_I_def)
  then show ?thesis
    using seb_Tnew_of_root[of "SBC * 3600 / (CP_I * 32)" 200] by (simp add: SBC_def CP_I_def)
qed











section \<open>Claims about the solvers and the caller functions\<close>

text \<open>
  Claim C1. Every root that the quartic solver returns for a real coefficient vector with
  non-zero leading coefficient satisfies the quartic, also in the degenerate case \<open>s = 0\<close>.
  The code does not do this: for \<open>x\<^sup>4 - 16\<close> the resolvent root is \<open>z0 = 0\<close>, so
  \<open>s = 0\<close>, and the alternate formula sets \<open>t = z0\<^sup>2 + r = 16\<close> where the factorisation
  needs \<open>t\<^sup>2 = z0\<^sup>2 + r\<close>. The solver returns \<open>\<plusminus>4\<i>\<close> and \<open>\<plusminus>4\<close>, none of which is a
  root (the roots are \<open>\<plusminus>2\<close> and \<open>\<plusminus>2\<i>\<close>).
\<close>

theorem single_quartic_degenerate_not_root:
  "single_quartic 1 0 0 0 (- 16) = Inr (- 4 * \<i>, 4 * \<i>, - 4, 4)
   \<and> quartic_poly 1 0 0 0 (- 16) (- 4 * \<i>) = 240
   \<and> quartic_poly 1 0 0 0 (- 16) (4 * \<i>) = 240
   \<and> quartic_poly 1 0 0 0 (- 16) (- 4) = 240
   \<and> quartic_poly 1 0 0 0 (- 16) 4 = 240"
  by (simp add: sq16 quartic_poly_def power4_eq_xxxx)

text \<open>
  Claim C7. \<^verbatim>\<open>cubic_roots\<close> raises the descriptive \<^verbatim>\<open>ValueError\<close> exactly for the inputs whose
  rows do not have 4 entries, and \<^verbatim>\<open>quartic_roots\<close> exactly for those whose rows do not have
  5 entries. The error is the whole result, so no root is computed before it; the width is
  \<^verbatim>\<open>p.shape[1]\<close> and no entry of a row is inspected, so trailing zeros do not change it. For
  an input of the right width no \<^verbatim>\<open>ValueError\<close> is raised at all.
\<close>

theorem roots_width_check:
  "(shape1 p \<noteq> 4 \<longrightarrow> cubic_roots p = Inl (ValueError
       (''Expected 3rd order polynomial with 4 coefficients, got '' @ format_d (shape1 p) @ ''.'')))
   \<and> (shape1 p = 4 \<longrightarrow> \<not> is_ValueError (cubic_roots p))
   \<and> (shape1 q \<noteq> 5 \<longrightarrow> quartic_roots q = Inl (ValueError
       (''Expected 4th order polynomial with 5 coefficients, got '' @ format_d (shape1 q) @ ''.'')))
   \<and> (shape1 q = 5 \<longrightarrow> \<not> is_ValueError (quartic_roots q))"
  using cubic_roots_width[of p] quartic_roots_width[of q] by blast

theorem roots_width_check_witness:
  "cubic_roots (Arr1 [1, 2, 3, 4, 0]) = Inl (ValueError
       ''Expected 3rd order polynomial with 4 coefficients, got 5.'')
   \<and> \<not> is_ValueError (quartic_roots (Arr1 [1, 2, 3, 4, 0]))
   \<and> \<not> is_ValueError (cubic_roots (Arr2 4 [[1, 2, 3, 4], [0, 0, 0, 1]]))
   \<and> quartic_roots (Arr2 4 [[1, 2, 3, 4], [0, 0, 0, 1]]) = Inl (ValueError
       ''Expected 4th order polynomial with 5 coefficients, got 4.'')"
  using roots_width_check[of "Arr1 [1, 2, 3, 4, 0]" "Arr1 [1, 2, 3, 4, 0]"]
        roots_width_check[of "Arr2 4 [[1, 2, 3, 4], [0, 0, 0, 1]]" "Arr2 4 [[1, 2, 3, 4], [0, 0, 0, 1]]"]
  by simp

text \<open>
  Claim C5. The quartic that the loops build is \<open>a * T\<^sup>4 + T + e\<close> with \<open>a > 0\<close>. It has at
  most one real, strictly positive root; and whenever it has one, the selection of the
  loop (solver, mask, real part) is the list of exactly this root.
\<close>

theorem seb_quartic_unique_positive_root:
  assumes "0 < a"
    and "Im x = 0" and "0 < Re x" and "quartic_poly a 0 0 1 e x = 0"
    and "Im y = 0" and "0 < Re y" and "quartic_poly a 0 0 1 e y = 0"
  shows "x = y \<and> seb_Tnew a (Some e) = Inr [Some (Re x)]"
proof -
  have "seb_Tnew a (Some e) = Inr [Some (Re x)]"
    by (rule seb_positive_root_selected[OF assms(1-4)])
  moreover have "seb_Tnew a (Some e) = Inr [Some (Re y)]"
    by (rule seb_positive_root_selected[OF assms(1) assms(5-7)])
  ultimately have "Re x = Re y" by simp
  with assms(2,5) have "x = y" by (simp add: complex_eq_iff)
  with \<open>seb_Tnew a (Some e) = Inr [Some (Re x)]\<close> show ?thesis by simp
qed

theorem seb_quartic_unique_positive_root_witness:
  "(0::real) < 1 / 5 \<and> Im (1::complex) = 0 \<and> 0 < Re (1::complex)
   \<and> quartic_poly (1 / 5) 0 0 1 (- 6 / 5) 1 = 0
   \<and> seb_Tnew (1 / 5) (Some (- 6 / 5)) = Inr [Some 1]"
proof -
  have p: "quartic_poly (1 / 5) 0 0 1 (- 6 / 5) 1 = 0"
    by (simp add: quartic_poly_def)
  from seb_quartic_unique_positive_root[of "1 / 5" 1 "- 6 / 5" 1] p
  show ?thesis by simp
qed

text \<open>
  Claim C6. The batched and the single-equation path of \<^verbatim>\<open>quartic_roots\<close> agree on every
  input. The code does not do this: \<^verbatim>\<open>multi_quartic\<close> calls \<^verbatim>\<open>multi_cubic\<close>, whose first
  statement after the divisions is \<^verbatim>\<open>sqr3 = math.sqrt(3)\<close>, and \<^verbatim>\<open>math\<close> is not imported. For
  99 rows of \<open>x\<^sup>4 - 1\<close> the single path returns the four roots of each row; for 100 rows of
  the same equation the batched path raises \<^verbatim>\<open>NameError\<close>.
\<close>

theorem batched_path_disagrees:
  "quartic_roots (Arr2 5 (replicate 99 [1, 0, 0, 0, - 1])) = Inr (replicate 99 [- \<i>, \<i>, - 1, 1])
   \<and> quartic_roots (Arr2 5 (replicate 100 [1, 0, 0, 0, - 1])) = Inl (NameError ''math'')"
proof -
  have s: "map_err (\<lambda>pi. case pi of
            [a0, b0, c0, d0, e0] \<Rightarrow>
              bind_err (single_quartic a0 b0 c0 d0 e0) (\<lambda>(r0, r1, r2, r3). Inr [r0, r1, r2, r3])
          | _ \<Rightarrow> Inl TypeError) (replicate 99 [1, 0, 0, 0, - 1])
      = Inr (map (\<lambda>pi. [- \<i>, \<i>, - 1, 1]) (replicate 99 [1, 0, 0, 0, - 1 :: real]))"
    by (rule map_err_Inr) (simp add: sq1 bind_err_def)
  have b: "map_err (\<lambda>pi. case pi of
            [a0, b0, c0, d0, e0] \<Rightarrow> Inr (a0, b0, c0, d0, e0)
          | _ \<Rightarrow> Inl TypeError) (replicate 100 [1, 0, 0, 0, - 1])
      = Inr (map (\<lambda>pi. (1 :: real, 0 :: real, 0 :: real, 0 :: real, - 1 :: real))
              (replicate 100 [1, 0, 0, 0, - 1 :: real]))"
    by (rule map_err_Inr) simp
  have m: "multi_quartic (replicate 100 (1, 0, 0, 0, - 1)) = Inl (NameError ''math'')"
    by (rule multi_quartic_NameError) simp
  show ?thesis
    unfolding quartic_roots_def rows_of.simps shape1.simps s b
    by (simp add: m bind_err_def)
qed

text \<open>
  Claim C10. The reduced cubic entry points return a real root in all three branches.
  The code does not do this: in the branch \<open>h \<le> 0\<close> \<^verbatim>\<open>single_cubic_one\<close> evaluates
  \<^verbatim>\<open>math.sqrt(-f)\<close>, and \<^verbatim>\<open>multi_cubic\<close> evaluates \<^verbatim>\<open>math.sqrt(3)\<close> on every call, with \<^verbatim>\<open>math\<close>
  unbound. For \<open>x\<^sup>3 - 3 x\<close> (three real roots, \<open>h = -1\<close>) both raise \<^verbatim>\<open>NameError\<close>, and
  \<^verbatim>\<open>multi_cubic\<close> also does for \<open>x\<^sup>3 + 16 x\<close>, where \<open>h > 0\<close>. In the two other branches
  \<^verbatim>\<open>single_cubic_one\<close> does return a real root (lemma \<open>sco_root\<close>).
\<close>

theorem reduced_cubic_raises_NameError:
  "single_cubic_one 1 0 (- 3) 0 = Inl (NameError ''math'')
   \<and> multi_cubic [(1, 0, - 3, 0)] False = Inl (NameError ''math'')
   \<and> multi_cubic [(1, 0, 16, 0)] False = Inl (NameError ''math'')"
proof -
  have "single_cubic_one 1 0 (- 3) 0 = Inl (NameError ''math'')"
    using sco_depressed[of "- 3" 0] by (simp add: power3_eq_cube)
  then show ?thesis by (simp add: multi_cubic_NameError)
qed

section \<open>Claims about the energy-balance loop\<close>









section \<open>Claims about the state carried from step to step\<close>

text \<open>
  Claim C3. In every implementation of the loop the previous temperature of step \<open>k > 0\<close> is
  the temperature computed in step \<open>k - 1\<close>. The loop of \<^verbatim>\<open>calcSEB\<close> does this
  (\<^verbatim>\<open>T_0 = TcalcH[kk-1]\<close>); the loop of \<^verbatim>\<open>makeSpinFiles\<close> reads \<^verbatim>\<open>T_0 = dts[kk-1]\<close>, the skin
  temperature of the input. For two steps with the flux -841.28, input temperatures 250 and
  240 and \<open>dt = 3600\<close>, step 0 computes 200; step 1 starts again from the input 250 and
  computes 200 again, where \<^verbatim>\<open>calcSEB\<close> would start from the 200 of step 0.
\<close>

theorem makeSpinFiles_previous_temperature_is_input:
  "makeSpinFiles_calc_melt False [Some (- 841.28), Some (- 841.28)] [Some 250, Some 240] 3600
       [0, 1 :: nat] = Inr ([Some 200, Some 200], [Some 0, Some 0])
   \<and> makeSpinFiles_T_0 [Some 250, Some 240] 1 = Inr (Some 250)
   \<and> calcSEB_T_0 [Some 250, Some 240] [Some 200, Some 0] 1 = Inr (Some 200)"
proof -
  let ?flux = "[Some (- 841.28), Some (- 841.28 :: real)]"
  let ?dts = "[Some 250, Some (240 :: real)]"
  have t0: "makeSpinFiles_T_0 ?dts 0 = Inr (Some 250)"
    and t1: "makeSpinFiles_T_0 ?dts 1 = Inr (Some 250)"
    by (simp_all add: makeSpinFiles_T_0_def index_def)
  have f0: "index ?flux 0 = Inr (Some (- 841.28))" and f1: "index ?flux 1 = Inr (Some (- 841.28))"
    by (simp_all add: index_def)
  have s0: "makeSpinFiles_step False ?flux ?dts 3600 ([Some 0, Some 0], [Some 0, Some 0]) 0
      = Inr ([Some 200, Some 0], [Some 0, Some 0])"
    unfolding makeSpinFiles_step_unfold[OF t0 f0 Tnew_200_spin]
    by (simp add: array_truth_def nan_ge_def bind_err_def)
  have s1: "makeSpinFiles_step False ?flux ?dts 3600 ([Some 200, Some 0], [Some 0, Some 0]) 1
      = Inr ([Some 200, Some 200], [Some 0, Some 0])"
    unfolding makeSpinFiles_step_unfold[OF t1 f1 Tnew_200_spin]
    by (simp add: array_truth_def nan_ge_def bind_err_def)
  have u: "[0 ..< length [0, 1 :: nat]] = [0, 1]" by (simp add: upt_rec)
  have r: "makeSpinFiles_calc_melt False ?flux ?dts 3600 [0, 1 :: nat]
      = Inr ([Some 200, Some 200], [Some 0, Some 0])"
    unfolding makeSpinFiles_calc_melt_def Let_def u
    by (simp only: list.map run_steps.simps s0 s1 bind_err_def sum.case)
  have c: "calcSEB_T_0 ?dts [Some 200, Some 0] 1 = Inr (Some 200)"
    by (simp add: calcSEB_T_0_def index_def)
  show ?thesis by (intro conjI) (rule r, rule t1, rule c)
qed



end
